theory Spec2Isabelle
  imports Main
begin

section \<open>Python values used by the optimizer\<close>

text \<open>
  The notebook holds one function,
  \<^verbatim>\<open>optimize_budget_with_weighted_quadratic_loss_custom_units(current_allocations, scale)\<close>.
  Its input is a Python dict from strings to integers (a bool counts as 0 or 1), its
  integers are unbounded, and two places compute with floats: the weights
  (\<^verbatim>\<open>scale / (current_val + 1)\<close>, then \<^verbatim>\<open>round\<close>) and the hard bounds
  (\<^verbatim>\<open>int(0.2 * income)\<close>). The exceptions these can raise, and the
  \<^verbatim>\<open>TypeError\<close> of OR-tools for an integer that does not fit 64 bits, are values of
  \<open>error\<close>.
\<close>

datatype error = ZeroDivisionError | OverflowError | TypeError

text \<open>A statement that may raise, followed by the rest of the body.\<close>

definition then_do :: "error + 'a \<Rightarrow> ('a \<Rightarrow> error + 'b) \<Rightarrow> error + 'b" where
  "then_do x f = (case x of Inl err \<Rightarrow> Inl err | Inr v \<Rightarrow> f v)"

type_synonym allocations = "string \<rightharpoonup> int"

text \<open>\<^verbatim>\<open>d.get(k, dflt)\<close>\<close>

definition get :: "allocations \<Rightarrow> string \<Rightarrow> int \<Rightarrow> int" where
  "get d k dflt = (case d k of Some v \<Rightarrow> v | None \<Rightarrow> dflt)"

subsection \<open>Floats (IEEE binary64)\<close>

text \<open>
  A finite double is written as a pair \<open>(m, e)\<close> of integers and stands for
  \<open>m * 2 ^ e\<close>. Every operation below computes the exact rational result and rounds it
  to the nearest double, ties to even, as binary64 arithmetic does: 53 significant bits,
  and no exponent below \<open>- 1074\<close> (the subnormal range).
\<close>

type_synonym double = "int \<times> int"

text \<open>\<^verbatim>\<open>int.bit_length\<close>: the number of binary digits of a positive integer.\<close>

function bit_length :: "int \<Rightarrow> nat" where
  "bit_length n = (if n \<le> 0 then 0 else Suc (bit_length (n div 2)))"
  by pat_completeness auto
termination
  by (relation "measure nat") auto

declare bit_length.simps [simp del]

text \<open>The integer nearest to \<open>a / b\<close> for \<open>0 < b\<close>, a tie going to the even one.\<close>

definition round_half_even :: "int \<Rightarrow> int \<Rightarrow> int" where
  "round_half_even a b =
     (let q = a div b; r = a mod b
      in if 2 * r < b then q else if b < 2 * r then q + 1 else if even q then q else q + 1)"

text \<open>For \<open>0 < a\<close> and \<open>0 < b\<close>: the \<open>t\<close> with \<open>2 ^ t \<le> a / b < 2 ^ (t + 1)\<close>.\<close>

definition binade :: "int \<Rightarrow> int \<Rightarrow> int" where
  "binade a b =
     (let la = bit_length a; lb = bit_length b
      in if b * 2 ^ (la - lb) \<le> a * 2 ^ (lb - la) then int la - int lb
         else int la - int lb - 1)"

text \<open>The double nearest to \<open>a / b\<close>, for \<open>0 \<le> a\<close> and \<open>0 < b\<close>.\<close>

definition nearest_double :: "int \<Rightarrow> int \<Rightarrow> double" where
  "nearest_double a b =
     (if a = 0 then (0, 0)
      else let e = max (binade a b - 52) (- 1074)
           in (round_half_even (a * 2 ^ nat (- e)) (b * 2 ^ nat e), e))"

text \<open>A rounded magnitude of \<open>2 ^ 1024\<close> or more is no finite double.\<close>

definition overflows :: "double \<Rightarrow> bool" where
  "overflows x = (case x of (m, e) \<Rightarrow> 971 < e \<or> (e = 971 \<and> 2 ^ 53 \<le> \<bar>m\<bar>))"

text \<open>The conversion of an \<^verbatim>\<open>int\<close> operand to \<^verbatim>\<open>float\<close>.\<close>

definition float_of_int :: "int \<Rightarrow> error + double" where
  "float_of_int n =
     (case nearest_double \<bar>n\<bar> 1 of (m, e) \<Rightarrow>
        if overflows (m, e) then Inl OverflowError else Inr (sgn n * m, e))"

text \<open>
  \<^verbatim>\<open>x * y\<close> on floats. The optimizer multiplies by literals below 1 only, so the
  product of two finite doubles is finite here.
\<close>

definition float_mul :: "double \<Rightarrow> double \<Rightarrow> double" where
  "float_mul x y =
     (case x of (m1, e1) \<Rightarrow> case y of (m2, e2) \<Rightarrow>
        (case nearest_double (\<bar>m1 * m2\<bar> * 2 ^ nat (e1 + e2)) (2 ^ nat (- (e1 + e2))) of
           (m, e) \<Rightarrow> (sgn (m1 * m2) * m, e)))"

text \<open>\<^verbatim>\<open>int(x)\<close> truncates towards zero.\<close>

definition int_of_float :: "double \<Rightarrow> int" where
  "int_of_float x = (case x of (m, e) \<Rightarrow> sgn m * ((\<bar>m\<bar> * 2 ^ nat e) div 2 ^ nat (- e)))"

text \<open>\<^verbatim>\<open>round(x)\<close> rounds a float to the nearest integer, ties to even.\<close>

definition py_round :: "double \<Rightarrow> int" where
  "py_round x = (case x of (m, e) \<Rightarrow> round_half_even (m * 2 ^ nat e) (2 ^ nat (- e)))"

text \<open>\<^verbatim>\<open>a / b\<close> on integers: the correctly rounded quotient.\<close>

definition truediv :: "int \<Rightarrow> int \<Rightarrow> error + double" where
  "truediv a b =
     (if b = 0 then Inl ZeroDivisionError
      else case nearest_double \<bar>a\<bar> \<bar>b\<bar> of (m, e) \<Rightarrow>
        if overflows (m, e) then Inl OverflowError else Inr (sgn a * sgn b * m, e))"

section \<open>The optimizer\<close>

subsection \<open>Categories, step factors and derived totals\<close>

definition categories :: "string list" where
  "categories =
     [''transport_expenditure'', ''food_expenditure'', ''housing_expenditure'',
      ''insurance_expenditure'', ''other_needs_expenditure'', ''investment_expenditure'',
      ''monthly_savings'', ''total_needs'', ''total_wants'']"

definition needs_categories :: "string list" where
  "needs_categories =
     [''transport_expenditure'', ''food_expenditure'', ''housing_expenditure'',
      ''insurance_expenditure'', ''other_needs_expenditure'']"

definition factors :: "string \<Rightarrow> int" where
  "factors cat = (if cat = ''transport_expenditure'' then 10 else 50)"

definition current_total_needs :: "allocations \<Rightarrow> int" where
  "current_total_needs current_allocations =
     foldl (\<lambda>acc cat. acc + get current_allocations cat 0) 0 needs_categories"

definition current_total_wants :: "int \<Rightarrow> allocations \<Rightarrow> int" where
  "current_total_wants income current_allocations =
     income - current_total_needs current_allocations
       - get current_allocations ''monthly_savings'' 0"

text \<open>
  The two assignments \<^verbatim>\<open>current_allocations['total_needs'] = ...\<close> and
  \<^verbatim>\<open>current_allocations['total_wants'] = ...\<close> write into the caller's dict.
\<close>

definition store_totals :: "int \<Rightarrow> allocations \<Rightarrow> allocations" where
  "store_totals income current_allocations =
     current_allocations
       (''total_needs'' \<mapsto> current_total_needs current_allocations,
        ''total_wants'' \<mapsto> current_total_wants income current_allocations)"

subsection \<open>Weights\<close>

text \<open>
  \<^verbatim>\<open>max(1, int(round(scale / (current_val + 1))))\<close>
\<close>

definition weight :: "int \<Rightarrow> int \<Rightarrow> error + int" where
  "weight scale current_val =
     (case truediv scale (current_val + 1) of
        Inl err \<Rightarrow> Inl err
      | Inr q \<Rightarrow> Inr (max 1 (py_round q)))"

fun weights_loop ::
  "allocations \<Rightarrow> int \<Rightarrow> string list \<Rightarrow> (string \<rightharpoonup> int) \<Rightarrow> error + (string \<rightharpoonup> int)" where
  "weights_loop current_allocations scale [] w = Inr w"
| "weights_loop current_allocations scale (cat # cats) w =
     (case weight scale (get current_allocations cat 0) of
        Inl err \<Rightarrow> Inl err
      | Inr x \<Rightarrow> weights_loop current_allocations scale cats (w(cat \<mapsto> x)))"

definition weights :: "allocations \<Rightarrow> int \<Rightarrow> error + (string \<rightharpoonup> int)" where
  "weights current_allocations scale =
     weights_loop current_allocations scale categories Map.empty"

subsection \<open>The constraint model\<close>

text \<open>
  The model handed to the solver. A variable is named after the dict that holds it in
  the source (\<^verbatim>\<open>unit_vars\<close>, \<^verbatim>\<open>alloc_vars\<close>, \<^verbatim>\<open>dev\<close>, \<^verbatim>\<open>quad_vars\<close>) and
  its category.
\<close>

datatype var = Units string | Alloc string | Dev string | Quad string

datatype expr =
    Var var
  | Const int
  | Scale int expr
  | Minus expr expr
  | Sum "expr list"

datatype constr =
    Eq expr expr
  | Ge expr expr
  | Le expr expr
  | MultiplicationEquality var "var list"

record cp_model =
  variables :: "(var \<times> int \<times> int) list"
  constraints :: "constr list"
  objective :: "expr option"

definition CpModel :: cp_model where
  "CpModel = \<lparr>variables = [], constraints = [], objective = None\<rparr>"

text \<open>
  OR-tools holds the integers of variables and constraints in 64 bits. A Python int
  outside that range, handed to it as a bound of a variable or as a constant or
  coefficient of a constraint, raises \<^verbatim>\<open>TypeError\<close>.
\<close>

definition int64 :: "int \<Rightarrow> bool" where
  "int64 n \<longleftrightarrow> - (2 ^ 63) \<le> n \<and> n \<le> 2 ^ 63 - 1"

fun fits_expr :: "expr \<Rightarrow> bool" where
  "fits_expr (Var v) = True"
| "fits_expr (Const c) = int64 c"
| "fits_expr (Scale c e) = (int64 c \<and> fits_expr e)"
| "fits_expr (Minus e1 e2) = (fits_expr e1 \<and> fits_expr e2)"
| "fits_expr (Sum es) = list_all fits_expr es"

fun fits_constr :: "constr \<Rightarrow> bool" where
  "fits_constr (Eq e1 e2) = (fits_expr e1 \<and> fits_expr e2)"
| "fits_constr (Ge e1 e2) = (fits_expr e1 \<and> fits_expr e2)"
| "fits_constr (Le e1 e2) = (fits_expr e1 \<and> fits_expr e2)"
| "fits_constr (MultiplicationEquality target vs) = True"

definition NewIntVar :: "int \<Rightarrow> int \<Rightarrow> var \<Rightarrow> cp_model \<Rightarrow> error + cp_model" where
  "NewIntVar lb ub v model =
     (if int64 lb \<and> int64 ub
      then Inr (model\<lparr>variables := variables model @ [(v, lb, ub)]\<rparr>)
      else Inl TypeError)"

definition Add :: "constr \<Rightarrow> cp_model \<Rightarrow> error + cp_model" where
  "Add c model =
     (if fits_constr c
      then Inr (model\<lparr>constraints := constraints model @ [c]\<rparr>)
      else Inl TypeError)"

definition AddMultiplicationEquality ::
  "var \<Rightarrow> var list \<Rightarrow> cp_model \<Rightarrow> error + cp_model" where
  "AddMultiplicationEquality target vs model = Add (MultiplicationEquality target vs) model"

definition Minimize :: "expr \<Rightarrow> cp_model \<Rightarrow> cp_model" where
  "Minimize obj model = model\<lparr>objective := Some obj\<rparr>"

text \<open>
  The body of the loop that creates the decision variables of one category. The lookup
  \<^verbatim>\<open>weights[cat]\<close> finds a weight for each of the nine categories, since the
  weight loop has run over the same list.
\<close>

definition add_category ::
  "allocations \<Rightarrow> (string \<rightharpoonup> int) \<Rightarrow> int \<Rightarrow> string \<Rightarrow> cp_model \<times> expr list
    \<Rightarrow> error + cp_model \<times> expr list" where
  "add_category current_allocations w income cat st =
     (case st of (model, weighted_quad_terms) \<Rightarrow>
        let factor = factors cat;
            max_units = income div factor
        in
        then_do (NewIntVar 0 max_units (Units cat) model) (\<lambda>model.
        then_do (NewIntVar 0 income (Alloc cat) model) (\<lambda>model.
        then_do (Add (Eq (Var (Alloc cat)) (Scale factor (Var (Units cat)))) model) (\<lambda>model.
        let current_val = get current_allocations cat 0
        in
        then_do (NewIntVar (- income) income (Dev cat) model) (\<lambda>model.
        then_do (Add (Eq (Var (Dev cat)) (Minus (Var (Alloc cat)) (Const current_val))) model)
          (\<lambda>model.
        then_do (NewIntVar 0 (income ^ 2) (Quad cat) model) (\<lambda>model.
        then_do (AddMultiplicationEquality (Quad cat) [Dev cat, Dev cat] model) (\<lambda>model.
        let weighted_term = Scale (the (w cat)) (Var (Quad cat))
        in Inr (model, weighted_quad_terms @ [weighted_term])))))))))"

text \<open>The loop over the categories: it stops at the first pass that raises.\<close>

fun variable_loop ::
  "allocations \<Rightarrow> (string \<rightharpoonup> int) \<Rightarrow> int \<Rightarrow> string list \<Rightarrow> cp_model \<times> expr list
    \<Rightarrow> error + cp_model \<times> expr list" where
  "variable_loop current_allocations w income [] st = Inr st"
| "variable_loop current_allocations w income (cat # cats) st =
     then_do (add_category current_allocations w income cat st)
       (variable_loop current_allocations w income cats)"

text \<open>\<^verbatim>\<open>int(lit * income)\<close> for the float literal \<open>lit = num / den\<close>.\<close>

definition hard_bound :: "int \<Rightarrow> int \<Rightarrow> int \<Rightarrow> error + int" where
  "hard_bound num den income =
     (case float_of_int income of
        Inl err \<Rightarrow> Inl err
      | Inr x \<Rightarrow> Inr (int_of_float (float_mul (nearest_double num den) x)))"

subsection \<open>The solver\<close>

text \<open>
  \<^verbatim>\<open>cp_model.CpSolver().Solve(model)\<close> is the OR-tools library, not code of the
  notebook: it is a parameter of the optimizer here. It answers with a status and, for
  \<^verbatim>\<open>solver.Value\<close>, a value for every variable.
\<close>

datatype status = UNKNOWN | MODEL_INVALID | FEASIBLE | INFEASIBLE | OPTIMAL

type_synonym assignment = "var \<Rightarrow> int"

type_synonym solver = "cp_model \<Rightarrow> status \<times> assignment"

fun eval :: "assignment \<Rightarrow> expr \<Rightarrow> int" where
  "eval a (Var v) = a v"
| "eval a (Const c) = c"
| "eval a (Scale c e) = c * eval a e"
| "eval a (Minus e1 e2) = eval a e1 - eval a e2"
| "eval a (Sum es) = sum_list (map (eval a) es)"

fun holds :: "assignment \<Rightarrow> constr \<Rightarrow> bool" where
  "holds a (Eq e1 e2) = (eval a e1 = eval a e2)"
| "holds a (Ge e1 e2) = (eval a e2 \<le> eval a e1)"
| "holds a (Le e1 e2) = (eval a e1 \<le> eval a e2)"
| "holds a (MultiplicationEquality target vs) = (a target = prod_list (map a vs))"

definition in_domain :: "assignment \<Rightarrow> var \<times> int \<times> int \<Rightarrow> bool" where
  "in_domain a d = (case d of (v, lb, ub) \<Rightarrow> lb \<le> a v \<and> a v \<le> ub)"

definition feasible :: "cp_model \<Rightarrow> assignment \<Rightarrow> bool" where
  "feasible model a =
     (list_all (in_domain a) (variables model) \<and> list_all (holds a) (constraints model))"

definition objective_value :: "cp_model \<Rightarrow> assignment \<Rightarrow> int" where
  "objective_value model a = (case objective model of None \<Rightarrow> 0 | Some obj \<Rightarrow> eval a obj)"

text \<open>
  What the optimizer relies on. A solver is sound when an answer \<^verbatim>\<open>OPTIMAL\<close> or
  \<^verbatim>\<open>FEASIBLE\<close> comes with values that satisfy the model. On one model, it is complete
  when it finds a solution whenever there is one, and exact when it then answers
  \<^verbatim>\<open>OPTIMAL\<close> with a solution of least objective value (CP-SAT without a time
  limit, as the notebook calls it).
\<close>

definition solver_sound :: "solver \<Rightarrow> bool" where
  "solver_sound solve =
     (\<forall>model. fst (solve model) \<in> {OPTIMAL, FEASIBLE} \<longrightarrow> feasible model (snd (solve model)))"

definition solver_complete :: "solver \<Rightarrow> cp_model \<Rightarrow> bool" where
  "solver_complete solve model =
     ((\<exists>a. feasible model a) \<longrightarrow> fst (solve model) \<in> {OPTIMAL, FEASIBLE})"

definition solver_exact :: "solver \<Rightarrow> cp_model \<Rightarrow> bool" where
  "solver_exact solve model =
     ((\<exists>a. feasible model a) \<longrightarrow>
        fst (solve model) = OPTIMAL \<and>
        feasible model (snd (solve model)) \<and>
        (\<forall>a. feasible model a \<longrightarrow>
           objective_value model (snd (solve model)) \<le> objective_value model a))"

subsection \<open>The function\<close>

text \<open>
  The first component of the result is the caller's dict after the call, the second
  what the call returns: an exception, \<^verbatim>\<open>(None, None)\<close> as \<open>None\<close>, or
  \<^verbatim>\<open>(result, total_weighted_quad_loss)\<close>.
\<close>

text \<open>
  The statements that build the model, in the order of the source: the weights, the
  variables and constraints of each category, the budget constraints with their hard
  bounds, the objective.
\<close>

definition the_model ::
  "allocations \<Rightarrow> int \<Rightarrow> int \<Rightarrow> error + ((string \<rightharpoonup> int) \<times> cp_model)" where
  "the_model current_allocations income scale =
     then_do (weights current_allocations scale) (\<lambda>w.
     then_do (variable_loop current_allocations w income categories (CpModel, [])) (\<lambda>st.
     case st of (model, weighted_quad_terms) \<Rightarrow>
     then_do (Add (Eq (Sum (map (\<lambda>cat. Var (Alloc cat)) needs_categories))
                      (Var (Alloc ''total_needs''))) model) (\<lambda>model.
     then_do (Add (Eq (Sum (map (\<lambda>cat. Var (Alloc cat))
                             [''total_needs'', ''total_wants'', ''monthly_savings'']))
                      (Const income)) model) (\<lambda>model.
     then_do (hard_bound 2 10 income) (\<lambda>savings_min.
     then_do (Add (Ge (Var (Alloc ''monthly_savings'')) (Const savings_min)) model) (\<lambda>model.
     then_do (hard_bound 5 10 income) (\<lambda>needs_max.
     then_do (Add (Le (Var (Alloc ''total_needs'')) (Const needs_max)) model) (\<lambda>model.
     then_do (hard_bound 3 10 income) (\<lambda>wants_max.
     then_do (Add (Le (Var (Alloc ''total_wants'')) (Const wants_max)) model) (\<lambda>model.
     Inr (w, Minimize (Sum weighted_quad_terms) model)))))))))))"

definition extract_result ::
  "(string \<rightharpoonup> int) \<Rightarrow> status \<times> assignment \<Rightarrow> ((string \<rightharpoonup> int) \<times> int) option" where
  "extract_result w answer =
     (case answer of (status, solution) \<Rightarrow>
        if status \<in> {OPTIMAL, FEASIBLE}
        then let result = map_of (map (\<lambda>cat. (cat, solution (Alloc cat))) categories);
                 total_weighted_quad_loss =
                   sum_list (map (\<lambda>cat. solution (Quad cat) * the (w cat)) categories)
             in Some (result, total_weighted_quad_loss)
        else None)"

definition optimize_budget_with_weighted_quadratic_loss_custom_units ::
  "solver \<Rightarrow> allocations \<Rightarrow> int
    \<Rightarrow> allocations \<times> (error + ((string \<rightharpoonup> int) \<times> int) option)" where
  "optimize_budget_with_weighted_quadratic_loss_custom_units solve current_allocations scale =
     (let income = get current_allocations ''monthly_take_home'' 0;
          current_allocations = store_totals income current_allocations
      in (current_allocations,
          case the_model current_allocations income scale of
            Inl err \<Rightarrow> Inl err
          | Inr (w, model) \<Rightarrow> Inr (extract_result w (solve model))))"

subsection \<open>The parts of the model\<close>

text \<open>
  The variables and constraints that one pass of the loop adds for a category, and the
  five budget constraints added after the loop.
\<close>

definition category_variables :: "int \<Rightarrow> string \<Rightarrow> (var \<times> int \<times> int) list" where
  "category_variables income cat =
     [(Units cat, 0, income div factors cat), (Alloc cat, 0, income),
      (Dev cat, - income, income), (Quad cat, 0, income ^ 2)]"

definition category_constraints :: "allocations \<Rightarrow> string \<Rightarrow> constr list" where
  "category_constraints cur cat =
     [Eq (Var (Alloc cat)) (Scale (factors cat) (Var (Units cat))),
      Eq (Var (Dev cat)) (Minus (Var (Alloc cat)) (Const (get cur cat 0))),
      MultiplicationEquality (Quad cat) [Dev cat, Dev cat]]"

definition budget_constraints :: "int \<Rightarrow> int \<Rightarrow> int \<Rightarrow> int \<Rightarrow> constr list" where
  "budget_constraints income savings_min needs_max wants_max =
     [Eq (Sum (map (\<lambda>cat. Var (Alloc cat)) needs_categories)) (Var (Alloc ''total_needs'')),
      Eq (Sum (map (\<lambda>cat. Var (Alloc cat)) [''total_needs'', ''total_wants'', ''monthly_savings'']))
         (Const income),
      Ge (Var (Alloc ''monthly_savings'')) (Const savings_min),
      Le (Var (Alloc ''total_needs'')) (Const needs_max),
      Le (Var (Alloc ''total_wants'')) (Const wants_max)]"

text \<open>
  The model these make, and what the integers of one category have to fit for the loop
  to get past it.
\<close>

definition assembled_model ::
  "allocations \<Rightarrow> (string \<rightharpoonup> int) \<Rightarrow> int \<Rightarrow> int \<Rightarrow> int \<Rightarrow> int \<Rightarrow> cp_model" where
  "assembled_model cur w income savings_min needs_max wants_max =
     \<lparr>variables = concat (map (category_variables income) categories),
      constraints = concat (map (category_constraints cur) categories)
        @ budget_constraints income savings_min needs_max wants_max,
      objective = Some (Sum (map (\<lambda>cat. Scale (the (w cat)) (Var (Quad cat))) categories))\<rparr>"

definition category_fits :: "allocations \<Rightarrow> int \<Rightarrow> string \<Rightarrow> bool" where
  "category_fits cur income cat \<longleftrightarrow> int64 (income ^ 2) \<and> int64 (get cur cat 0)"

text \<open>What a feasible assignment of the model satisfies, category by category.\<close>

definition category_ok :: "allocations \<Rightarrow> int \<Rightarrow> assignment \<Rightarrow> string \<Rightarrow> bool" where
  "category_ok cur income a cat =
     (0 \<le> a (Units cat) \<and> a (Units cat) \<le> income div factors cat \<and>
      0 \<le> a (Alloc cat) \<and> a (Alloc cat) \<le> income \<and>
      - income \<le> a (Dev cat) \<and> a (Dev cat) \<le> income \<and>
      0 \<le> a (Quad cat) \<and> a (Quad cat) \<le> income ^ 2 \<and>
      a (Alloc cat) = factors cat * a (Units cat) \<and>
      a (Dev cat) = a (Alloc cat) - get cur cat 0 \<and>
      a (Quad cat) = a (Dev cat) * a (Dev cat))"

section \<open>The run recorded in the notebook\<close>

text \<open>
  The notebook calls the function on one dict and prints the result. The dict, the
  printed allocation, the values of all variables that belong to it, and a solver that
  answers with given values when they satisfy the model.
\<close>

definition reference_input :: allocations where
  "reference_input =
     [''age'' \<mapsto> 30, ''number_of_kids'' \<mapsto> 1, ''monthly_take_home'' \<mapsto> 4000,
      ''planning_to_buy_home'' \<mapsto> 1, ''repaying_home_loans'' \<mapsto> 0,
      ''supporting_aged_parents'' \<mapsto> 0, ''owns_car'' \<mapsto> 1,
      ''transport_expenditure'' \<mapsto> 100, ''food_expenditure'' \<mapsto> 100,
      ''housing_expenditure'' \<mapsto> 1000, ''insurance_expenditure'' \<mapsto> 100,
      ''other_needs_expenditure'' \<mapsto> 700, ''emergency_funds'' \<mapsto> 6000,
      ''investment_expenditure'' \<mapsto> 300, ''monthly_savings'' \<mapsto> 700]"

definition reference_output :: "string \<rightharpoonup> int" where
  "reference_output =
     [''transport_expenditure'' \<mapsto> 100, ''food_expenditure'' \<mapsto> 100,
      ''housing_expenditure'' \<mapsto> 1000, ''insurance_expenditure'' \<mapsto> 100,
      ''other_needs_expenditure'' \<mapsto> 700, ''investment_expenditure'' \<mapsto> 300,
      ''monthly_savings'' \<mapsto> 800, ''total_needs'' \<mapsto> 2000, ''total_wants'' \<mapsto> 1200]"

fun reference_solution :: assignment where
  "reference_solution (Alloc cat) = get reference_output cat 0"
| "reference_solution (Units cat) = get reference_output cat 0 div factors cat"
| "reference_solution (Dev cat) =
     get reference_output cat 0 - get (store_totals 4000 reference_input) cat 0"
| "reference_solution (Quad cat) =
     (get reference_output cat 0 - get (store_totals 4000 reference_input) cat 0) ^ 2"

definition checking_solver :: "assignment \<Rightarrow> solver" where
  "checking_solver a model = (if feasible model a then FEASIBLE else UNKNOWN, a)"

text \<open>The answer of the solver in the recorded run.\<close>

definition recorded_run :: solver where
  "recorded_run model = (OPTIMAL, reference_solution)"

text \<open>Inputs on which the derived or supplied values leave the usual range.\<close>

definition zero_income_input :: allocations where
  "zero_income_input = [''monthly_take_home'' \<mapsto> 0, ''monthly_savings'' \<mapsto> 1]"

definition overspent_input :: allocations where
  "overspent_input =
     [''monthly_take_home'' \<mapsto> 1000, ''housing_expenditure'' \<mapsto> 600, ''monthly_savings'' \<mapsto> 401]"

definition overinvested_input :: allocations where
  "overinvested_input =
     [''monthly_take_home'' \<mapsto> 100, ''investment_expenditure'' \<mapsto> 201, ''monthly_savings'' \<mapsto> 101]"

definition oversized_input :: allocations where
  "oversized_input = reference_input(''food_expenditure'' \<mapsto> 9000)"

text \<open>The seven categories a caller supplies; the two totals are derived.\<close>

definition supplied_categories :: "string list" where
  "supplied_categories = needs_categories @ [''investment_expenditure'', ''monthly_savings'']"

text \<open>
  Two dicts hold the same budget when they agree on the income and on the seven supplied
  categories, whatever other keys they have.
\<close>

definition same_budget :: "allocations \<Rightarrow> allocations \<Rightarrow> bool" where
  "same_budget cur cur0 =
     list_all (\<lambda>k. get cur k 0 = get cur0 k 0) (''monthly_take_home'' # supplied_categories)"

text \<open>The income of 0: every variable at 0, a dict with nothing but an income of 0, and one
  that also reports a current food expenditure.\<close>

definition zero_solution :: assignment where
  "zero_solution v = 0"

definition empty_budget :: allocations where
  "empty_budget = [''monthly_take_home'' \<mapsto> 0]"

definition unfunded_input :: allocations where
  "unfunded_input = [''monthly_take_home'' \<mapsto> 0, ''food_expenditure'' \<mapsto> 100]"

section \<open>The structure of the model\<close>

lemma int64_income:
  assumes "int64 (income ^ 2)"
  shows "int64 income" "int64 (- income)" "int64 (income div factors cat)"
proof -
  have sq: "\<bar>income\<bar> \<le> income ^ 2"
    using self_le_power [of "\<bar>income\<bar>" 2] by (cases "income = 0") simp_all
  with assms have a: "\<bar>income\<bar> \<le> 2 ^ 63 - 1"
    by (simp add: int64_def)
  then show "int64 income" "int64 (- income)"
    unfolding int64_def by linarith+
  have "\<bar>income div 10\<bar> \<le> \<bar>income\<bar>" "\<bar>income div 50\<bar> \<le> \<bar>income\<bar>"
    by linarith+
  then have "\<bar>income div factors cat\<bar> \<le> \<bar>income\<bar>"
    by (simp add: factors_def)
  with a show "int64 (income div factors cat)"
    unfolding int64_def by linarith
qed

lemma int64_small: "int64 0" "int64 10" "int64 50" "int64 (factors cat)"
  by (simp_all add: int64_def factors_def)

lemma NewIntVar_eq:
  "then_do (NewIntVar lb ub v model) f =
     (if int64 lb \<and> int64 ub then f (model\<lparr>variables := variables model @ [(v, lb, ub)]\<rparr>)
      else Inl TypeError)"
  by (simp add: NewIntVar_def then_do_def)

lemma Add_eq:
  "then_do (Add c model) f =
     (if fits_constr c then f (model\<lparr>constraints := constraints model @ [c]\<rparr>)
      else Inl TypeError)"
  by (simp add: Add_def then_do_def)

lemma add_category_eq:
  "add_category cur w income cat (model, terms) =
     (if int64 (income div factors cat) \<and> int64 income \<and> int64 (- income) \<and>
         int64 (income ^ 2) \<and> int64 (get cur cat 0)
      then Inr (model\<lparr>variables := variables model @ category_variables income cat,
                       constraints := constraints model @ category_constraints cur cat\<rparr>,
                terms @ [Scale (the (w cat)) (Var (Quad cat))])
      else Inl TypeError)"
  by (simp add: add_category_def NewIntVar_eq Add_eq AddMultiplicationEquality_def
      Let_def int64_small category_variables_def category_constraints_def)

lemma add_category_Inr:
  assumes "add_category cur w income cat st = Inr st'"
  shows "variables (fst st') = variables (fst st) @ category_variables income cat"
    and "constraints (fst st') = constraints (fst st) @ category_constraints cur cat"
    and "objective (fst st') = objective (fst st)"
    and "snd st' = snd st @ [Scale (the (w cat)) (Var (Quad cat))]"
    and "category_fits cur income cat"
proof -
  obtain model terms where st: "st = (model, terms)" by (cases st)
  from assms have f: "category_fits cur income cat"
    and s: "st' = (model\<lparr>variables := variables model @ category_variables income cat,
                       constraints := constraints model @ category_constraints cur cat\<rparr>,
                terms @ [Scale (the (w cat)) (Var (Quad cat))])"
    by (simp_all add: st add_category_eq category_fits_def split: if_splits)
  show "category_fits cur income cat" by (rule f)
  show "variables (fst st') = variables (fst st) @ category_variables income cat"
    and "constraints (fst st') = constraints (fst st) @ category_constraints cur cat"
    and "objective (fst st') = objective (fst st)"
    and "snd st' = snd st @ [Scale (the (w cat)) (Var (Quad cat))]"
    by (simp_all add: s st)
qed

lemma add_category_fits:
  assumes "category_fits cur income cat"
  shows "\<exists>st'. add_category cur w income cat st = Inr st'"
  using assms int64_income(1,2) [of income] int64_income(3) [of income cat]
  by (cases st) (simp add: add_category_eq category_fits_def)

lemma add_category_Inl: "add_category cur w income cat st = Inl err \<Longrightarrow> err = TypeError"
  by (cases st) (simp add: add_category_eq split: if_splits)

lemma variable_loop_Inr:
  assumes "variable_loop cur w income cats st = Inr st'"
  shows "variables (fst st') = variables (fst st) @ concat (map (category_variables income) cats)"
    and "constraints (fst st') =
           constraints (fst st) @ concat (map (category_constraints cur) cats)"
    and "objective (fst st') = objective (fst st)"
    and "snd st' = snd st @ map (\<lambda>cat. Scale (the (w cat)) (Var (Quad cat))) cats"
    and "list_all (category_fits cur income) cats"
  using assms
proof (induction cats arbitrary: st)
  case Nil
  {
    case 1 then show ?case by simp
  next
    case 2 then show ?case by simp
  next
    case 3 then show ?case by simp
  next
    case 4 then show ?case by simp
  next
    case 5 then show ?case by simp
  }
next
  case (Cons cat cats)
  {
    case 1
    then obtain st1 where a: "add_category cur w income cat st = Inr st1"
      and l: "variable_loop cur w income cats st1 = Inr st'"
      by (auto simp: then_do_def split: sum.splits)
    show ?case using Cons.IH(1) [OF l] add_category_Inr [OF a] by simp
  next
    case 2
    then obtain st1 where a: "add_category cur w income cat st = Inr st1"
      and l: "variable_loop cur w income cats st1 = Inr st'"
      by (auto simp: then_do_def split: sum.splits)
    show ?case using Cons.IH(2) [OF l] add_category_Inr [OF a] by simp
  next
    case 3
    then obtain st1 where a: "add_category cur w income cat st = Inr st1"
      and l: "variable_loop cur w income cats st1 = Inr st'"
      by (auto simp: then_do_def split: sum.splits)
    show ?case using Cons.IH(3) [OF l] add_category_Inr [OF a] by simp
  next
    case 4
    then obtain st1 where a: "add_category cur w income cat st = Inr st1"
      and l: "variable_loop cur w income cats st1 = Inr st'"
      by (auto simp: then_do_def split: sum.splits)
    show ?case using Cons.IH(4) [OF l] add_category_Inr [OF a] by simp
  next
    case 5
    then obtain st1 where a: "add_category cur w income cat st = Inr st1"
      and l: "variable_loop cur w income cats st1 = Inr st'"
      by (auto simp: then_do_def split: sum.splits)
    show ?case using Cons.IH(5) [OF l] add_category_Inr [OF a] by simp
  }
qed

lemma variable_loop_fits:
  "list_all (category_fits cur income) cats \<Longrightarrow>
     \<exists>st'. variable_loop cur w income cats st = Inr st'"
proof (induction cats arbitrary: st)
  case Nil
  then show ?case by simp
next
  case (Cons cat cats)
  from Cons.prems have "category_fits cur income cat" by simp
  then obtain st1 where "add_category cur w income cat st = Inr st1"
    using add_category_fits [of cur income cat w st] by blast
  with Cons show ?case by (simp add: then_do_def)
qed

lemma variable_loop_Inl:
  "variable_loop cur w income cats st = Inl err \<Longrightarrow> err = TypeError"
  by (induction cats arbitrary: st)
    (auto simp: then_do_def split: sum.splits dest: add_category_Inl)

lemma Add_Inr: "Add c model = Inr model' \<longleftrightarrow>
    fits_constr c \<and> model' = model\<lparr>constraints := constraints model @ [c]\<rparr>"
  by (auto simp: Add_def)

lemma Add_Inl: "Add c model = Inl err \<Longrightarrow> err = TypeError"
  by (simp add: Add_def split: if_splits)

lemma hard_bound_Inl: "hard_bound num den income = Inl err \<Longrightarrow> err = OverflowError"
  by (auto simp: hard_bound_def float_of_int_def split: sum.splits prod.splits if_splits)

lemma then_do_Inr: "then_do x f = Inr y \<longleftrightarrow> (\<exists>v. x = Inr v \<and> f v = Inr y)"
  by (simp add: then_do_def split: sum.splits)

lemma then_do_Inl:
  "then_do x f = Inl err \<longleftrightarrow> x = Inl err \<or> (\<exists>v. x = Inr v \<and> f v = Inl err)"
  by (simp add: then_do_def split: sum.splits)

lemma assembled_model_fields:
  "variables (assembled_model cur w income b1 b2 b3) =
     concat (map (category_variables income) categories)"
  "constraints (assembled_model cur w income b1 b2 b3) =
     concat (map (category_constraints cur) categories) @ budget_constraints income b1 b2 b3"
  "objective (assembled_model cur w income b1 b2 b3) =
     Some (Sum (map (\<lambda>cat. Scale (the (w cat)) (Var (Quad cat))) categories))"
  by (simp_all add: assembled_model_def)

lemma feasible_assembled_model:
  "feasible (assembled_model cur w income b1 b2 b3) a \<longleftrightarrow>
     list_all (category_ok cur income a) categories \<and>
     list_all (holds a) (budget_constraints income b1 b2 b3)"
proof -
  have 1: "list_all (in_domain a) (concat (map (category_variables income) cats)) \<and>
        list_all (holds a) (concat (map (category_constraints cur) cats)) \<longleftrightarrow>
        list_all (category_ok cur income a) cats" for cats
    by (induction cats)
      (auto simp: category_variables_def category_constraints_def category_ok_def in_domain_def)
  show ?thesis
    using 1 [of categories] by (auto simp: feasible_def assembled_model_fields)
qed

lemma holds_budget_constraints:
  "list_all (holds a) (budget_constraints income b1 b2 b3) \<longleftrightarrow>
     a (Alloc ''transport_expenditure'') + a (Alloc ''food_expenditure'')
       + a (Alloc ''housing_expenditure'') + a (Alloc ''insurance_expenditure'')
       + a (Alloc ''other_needs_expenditure'') = a (Alloc ''total_needs'') \<and>
     a (Alloc ''total_needs'') + a (Alloc ''total_wants'') + a (Alloc ''monthly_savings'') = income \<and>
     b1 \<le> a (Alloc ''monthly_savings'') \<and>
     a (Alloc ''total_needs'') \<le> b2 \<and>
     a (Alloc ''total_wants'') \<le> b3"
  by (simp add: budget_constraints_def needs_categories_def add.assoc)

lemma the_model_Inr:
  assumes "the_model cur income scale = Inr (w, model)"
  obtains b1 b2 b3 where
    "weights cur scale = Inr w"
    "hard_bound 2 10 income = Inr b1"
    "hard_bound 5 10 income = Inr b2"
    "hard_bound 3 10 income = Inr b3"
    "model = assembled_model cur w income b1 b2 b3"
    "list_all (category_fits cur income) categories"
    "int64 b1" "int64 b2" "int64 b3"
proof -
  from assms obtain m0 terms m1 m2 b1 m3 b2 m4 b3 m5 where
    w: "weights cur scale = Inr w"
    and l: "variable_loop cur w income categories (CpModel, []) = Inr (m0, terms)"
    and a1: "Add (Eq (Sum (map (\<lambda>cat. Var (Alloc cat)) needs_categories))
                      (Var (Alloc ''total_needs''))) m0 = Inr m1"
    and a2: "Add (Eq (Sum (map (\<lambda>cat. Var (Alloc cat))
                             [''total_needs'', ''total_wants'', ''monthly_savings'']))
                      (Const income)) m1 = Inr m2"
    and b1: "hard_bound 2 10 income = Inr b1"
    and a3: "Add (Ge (Var (Alloc ''monthly_savings'')) (Const b1)) m2 = Inr m3"
    and b2: "hard_bound 5 10 income = Inr b2"
    and a4: "Add (Le (Var (Alloc ''total_needs'')) (Const b2)) m3 = Inr m4"
    and b3: "hard_bound 3 10 income = Inr b3"
    and a5: "Add (Le (Var (Alloc ''total_wants'')) (Const b3)) m4 = Inr m5"
    and m: "model = Minimize (Sum terms) m5"
    unfolding the_model_def
    by (auto simp: then_do_Inr split: prod.splits)
  note v = variable_loop_Inr [OF l]
  have "variables model = concat (map (category_variables income) categories)"
    and "constraints model =
      concat (map (category_constraints cur) categories) @ budget_constraints income b1 b2 b3"
    and "objective model =
      Some (Sum (map (\<lambda>cat. Scale (the (w cat)) (Var (Quad cat))) categories))"
    using a1 a2 a3 a4 a5 v(1-4)
    by (simp_all add: m Minimize_def Add_Inr CpModel_def budget_constraints_def)
  then have "model = assembled_model cur w income b1 b2 b3"
    by (intro cp_model.equality) (simp_all add: assembled_model_fields)
  moreover have "int64 b1" "int64 b2" "int64 b3"
    using a3 a4 a5 by (simp_all add: Add_Inr)
  ultimately show thesis
    using w b1 b2 b3 v(5) by (rule_tac that)
qed

lemma the_model_Inl:
  assumes "the_model cur income scale = Inl err"
  shows "weights cur scale = Inl err \<or> err = TypeError \<or> err = OverflowError"
  using assms unfolding the_model_def
  by (auto simp: then_do_Inl split: prod.splits dest: variable_loop_Inl Add_Inl hard_bound_Inl)

lemma the_model_weights_raise:
  "weights cur scale = Inl err \<Longrightarrow> the_model cur income scale = Inl err"
  by (simp add: the_model_def then_do_def)

lemma optimize_Some:
  assumes "snd (optimize_budget_with_weighted_quadratic_loss_custom_units solve cur scale) = Inr (Some (result, loss))"
  obtains w model where
    "the_model (store_totals (get cur ''monthly_take_home'' 0) cur)
       (get cur ''monthly_take_home'' 0) scale = Inr (w, model)"
    "fst (solve model) \<in> {OPTIMAL, FEASIBLE}"
    "result = map_of (map (\<lambda>cat. (cat, snd (solve model) (Alloc cat))) categories)"
    "loss = sum_list (map (\<lambda>cat. snd (solve model) (Quad cat) * the (w cat)) categories)"
  using assms
  by (auto simp: optimize_budget_with_weighted_quadratic_loss_custom_units_def extract_result_def Let_def split: sum.splits prod.splits if_splits)

lemma result_lookup:
  "cat \<in> set cats \<Longrightarrow> map_of (map (\<lambda>cat. (cat, f cat)) cats) cat = Some (f cat)"
  by (induction cats) auto

lemma result_dom: "dom (map_of (map (\<lambda>cat. (cat, f cat)) cats)) = set cats"
  by (simp add: dom_map_of_conv_image_fst image_image)

lemma optimize_solution:
  assumes "solver_sound solve"
    and "snd (optimize_budget_with_weighted_quadratic_loss_custom_units solve cur scale) = Inr (Some (result, loss))"
  obtains w a b1 b2 b3 where
    "weights (store_totals (get cur ''monthly_take_home'' 0) cur) scale = Inr w"
    "hard_bound 2 10 (get cur ''monthly_take_home'' 0) = Inr b1"
    "hard_bound 5 10 (get cur ''monthly_take_home'' 0) = Inr b2"
    "hard_bound 3 10 (get cur ''monthly_take_home'' 0) = Inr b3"
    "list_all (category_ok (store_totals (get cur ''monthly_take_home'' 0) cur)
        (get cur ''monthly_take_home'' 0) a) categories"
    "list_all (holds a) (budget_constraints (get cur ''monthly_take_home'' 0) b1 b2 b3)"
    "result = map_of (map (\<lambda>cat. (cat, a (Alloc cat))) categories)"
    "loss = sum_list (map (\<lambda>cat. a (Quad cat) * the (w cat)) categories)"
proof -
  from assms(2) obtain w model where m:
    "the_model (store_totals (get cur ''monthly_take_home'' 0) cur)
       (get cur ''monthly_take_home'' 0) scale = Inr (w, model)"
    "fst (solve model) \<in> {OPTIMAL, FEASIBLE}"
    "result = map_of (map (\<lambda>cat. (cat, snd (solve model) (Alloc cat))) categories)"
    "loss = sum_list (map (\<lambda>cat. snd (solve model) (Quad cat) * the (w cat)) categories)"
    by (rule optimize_Some)
  from m(1) obtain b1 b2 b3 where b:
    "weights (store_totals (get cur ''monthly_take_home'' 0) cur) scale = Inr w"
    "hard_bound 2 10 (get cur ''monthly_take_home'' 0) = Inr b1"
    "hard_bound 5 10 (get cur ''monthly_take_home'' 0) = Inr b2"
    "hard_bound 3 10 (get cur ''monthly_take_home'' 0) = Inr b3"
    "model = assembled_model (store_totals (get cur ''monthly_take_home'' 0) cur) w
       (get cur ''monthly_take_home'' 0) b1 b2 b3"
    by (rule the_model_Inr)
  from assms(1) m(2) have "feasible model (snd (solve model))"
    by (auto simp: solver_sound_def)
  then have "list_all (category_ok (store_totals (get cur ''monthly_take_home'' 0) cur)
        (get cur ''monthly_take_home'' 0) (snd (solve model))) categories"
    and "list_all (holds (snd (solve model))) (budget_constraints (get cur ''monthly_take_home'' 0) b1 b2 b3)"
    by (simp_all add: b(5) feasible_assembled_model)
  with b m show thesis by (rule_tac that)
qed

lemma checking_solver_sound: "solver_sound (checking_solver a)"
  by (simp add: solver_sound_def checking_solver_def)

lemma reference_run:
  "case snd (optimize_budget_with_weighted_quadratic_loss_custom_units (checking_solver reference_solution) reference_input 1000) of
     Inr (Some (result, loss)) \<Rightarrow>
       loss = 20000 \<and> result ''monthly_savings'' = Some 800 \<and>
       result ''total_needs'' = Some 2000 \<and> result ''total_wants'' = Some 1200
   | _ \<Rightarrow> False"
  by code_simp

lemma distinct_categories: "distinct categories"
  by (simp add: categories_def)

lemma list_all_categories:
  "list_all P categories \<longleftrightarrow>
     P ''transport_expenditure'' \<and> P ''food_expenditure'' \<and> P ''housing_expenditure'' \<and>
     P ''insurance_expenditure'' \<and> P ''other_needs_expenditure'' \<and>
     P ''investment_expenditure'' \<and> P ''monthly_savings'' \<and> P ''total_needs'' \<and>
     P ''total_wants''"
  by (simp add: categories_def)

lemma weight_positive: "weight scale v = Inr x \<Longrightarrow> 1 \<le> x"
  by (auto simp: weight_def split: sum.splits)

lemma weight_ZeroDivisionError: "weight scale v = Inl ZeroDivisionError \<longleftrightarrow> v = - 1"
  by (auto simp: weight_def truediv_def split: sum.splits prod.splits if_splits)

lemma weights_loop_other:
  "weights_loop cur scale cats w0 = Inr w \<Longrightarrow> cat \<notin> set cats \<Longrightarrow> w cat = w0 cat"
  by (induction cats arbitrary: w0) (auto split: sum.splits)

lemma weights_loop_lookup:
  "weights_loop cur scale cats w0 = Inr w \<Longrightarrow> distinct cats \<Longrightarrow> cat \<in> set cats \<Longrightarrow>
     \<exists>x. w cat = Some x \<and> weight scale (get cur cat 0) = Inr x"
proof (induction cats arbitrary: w0)
  case Nil
  then show ?case by simp
next
  case (Cons c cats)
  from Cons.prems(1) obtain x where
    x: "weight scale (get cur c 0) = Inr x"
    and l: "weights_loop cur scale cats (w0(c \<mapsto> x)) = Inr w"
    by (auto split: sum.splits)
  show ?case
  proof (cases "cat = c")
    case True
    with Cons.prems(2) have "w cat = (w0(c \<mapsto> x)) cat"
      using weights_loop_other [OF l, of cat] by simp
    with True x show ?thesis by simp
  next
    case False
    with Cons.prems Cons.IH [OF l] show ?thesis by simp
  qed
qed

lemma weights_lookup:
  "weights cur scale = Inr w \<Longrightarrow> cat \<in> set categories \<Longrightarrow>
     \<exists>x. w cat = Some x \<and> weight scale (get cur cat 0) = Inr x \<and> 1 \<le> x"
  using weights_loop_lookup [of cur scale categories Map.empty w cat]
  by (auto simp: weights_def distinct_categories dest: weight_positive)

lemma weights_loop_ZeroDivisionError:
  "weights_loop cur scale cats w0 = Inl ZeroDivisionError \<Longrightarrow>
     \<exists>cat\<in>set cats. get cur cat 0 = - 1"
  by (induction cats arbitrary: w0) (auto split: sum.splits simp: weight_ZeroDivisionError)

lemma weights_loop_Inr:
  "list_all (\<lambda>cat. \<exists>x. weight scale (get cur cat 0) = Inr x) cats \<Longrightarrow>
     \<exists>w. weights_loop cur scale cats w0 = Inr w"
  by (induction cats arbitrary: w0) (auto split: sum.splits)

lemma optimize_after_the_model:
  assumes "the_model (store_totals (get cur ''monthly_take_home'' 0) cur)
             (get cur ''monthly_take_home'' 0) scale = Inr (w, model)"
  shows "snd (optimize_budget_with_weighted_quadratic_loss_custom_units solve cur scale)
           = Inr (extract_result w (solve model))"
  using assms by (simp add: optimize_budget_with_weighted_quadratic_loss_custom_units_def Let_def)

lemma optimize_raises:
  assumes "weights (store_totals (get cur ''monthly_take_home'' 0) cur) scale = Inl err"
  shows "snd (optimize_budget_with_weighted_quadratic_loss_custom_units solve cur scale) = Inl err"
  using assms
  by (simp add: optimize_budget_with_weighted_quadratic_loss_custom_units_def
      the_model_weights_raise Let_def)

lemma reference_the_model:
  "case the_model (store_totals 4000 reference_input) 4000 1000 of
     Inl err \<Rightarrow> False
   | Inr (w, model) \<Rightarrow> fst (checking_solver reference_solution model) = FEASIBLE"
  by code_simp

lemma reference_income: "get reference_input ''monthly_take_home'' 0 = 4000"
  by (simp add: reference_input_def get_def)

lemma get_store_totals:
  "get (store_totals income cur) k 0 =
     (if k = ''total_wants'' then current_total_wants income cur
      else if k = ''total_needs'' then current_total_needs cur
      else get cur k 0)"
  by (simp add: store_totals_def get_def)

lemma current_total_needs_eq:
  "current_total_needs cur =
     get cur ''transport_expenditure'' 0 + get cur ''food_expenditure'' 0
       + get cur ''housing_expenditure'' 0 + get cur ''insurance_expenditure'' 0
       + get cur ''other_needs_expenditure'' 0"
  by (simp add: current_total_needs_def needs_categories_def)

lemma optimize_ZeroDivisionError:
  assumes "snd (optimize_budget_with_weighted_quadratic_loss_custom_units solve cur scale)
             = Inl ZeroDivisionError"
  shows "\<exists>cat\<in>set categories.
           get (store_totals (get cur ''monthly_take_home'' 0) cur) cat 0 = - 1"
proof -
  from assms have "the_model (store_totals (get cur ''monthly_take_home'' 0) cur)
      (get cur ''monthly_take_home'' 0) scale = Inl ZeroDivisionError"
    by (auto simp: optimize_budget_with_weighted_quadratic_loss_custom_units_def Let_def
        split: sum.splits prod.splits)
  then have "weights (store_totals (get cur ''monthly_take_home'' 0) cur) scale
      = Inl ZeroDivisionError"
    by (auto dest: the_model_Inl)
  then show ?thesis
    unfolding weights_def by (rule weights_loop_ZeroDivisionError)
qed

lemma store_totals_idem:
  "store_totals (get (store_totals income cur) ''monthly_take_home'' 0) (store_totals income cur)
     = store_totals income cur"
  if "income = get cur ''monthly_take_home'' 0"
proof -
  have "current_total_needs (store_totals income cur) = current_total_needs cur"
    by (simp add: current_total_needs_eq get_store_totals)
  moreover have "get (store_totals income cur) ''monthly_take_home'' 0 = income"
    using that by (simp add: get_store_totals)
  moreover have "get (store_totals income cur) ''monthly_savings'' 0 = get cur ''monthly_savings'' 0"
    by (simp add: get_store_totals)
  ultimately show ?thesis
    by (simp add: store_totals_def current_total_wants_def)
qed

lemma oversized_current_infeasible:
  assumes "cat \<in> set categories" and "2 * income < get cur cat 0"
  shows "\<not> feasible (assembled_model cur w income b1 b2 b3) a"
proof
  assume "feasible (assembled_model cur w income b1 b2 b3) a"
  then have "list_all (category_ok cur income a) categories"
    by (simp add: feasible_assembled_model)
  with assms(1) have "category_ok cur income a cat"
    by (simp add: list_all_iff)
  then have "a (Alloc cat) \<le> income" "- income \<le> a (Dev cat)"
    "a (Dev cat) = a (Alloc cat) - get cur cat 0"
    by (simp_all add: category_ok_def)
  with assms(2) show False by simp
qed

lemma oversized_the_model:
  "case the_model (store_totals 4000 oversized_input) 4000 1000 of
     Inl err \<Rightarrow> False | Inr (w, model) \<Rightarrow> True"
  by code_simp

section \<open>Facts about the floats\<close>

lemma bit_length_pos: "0 < n \<Longrightarrow> bit_length n = Suc (bit_length (n div 2))"
  and bit_length_nonpos: "n \<le> 0 \<Longrightarrow> bit_length n = 0"
  by (simp_all add: bit_length.simps)

lemma bit_length_bounds:
  "0 < n \<Longrightarrow> 2 ^ (bit_length n - 1) \<le> n \<and> n < 2 ^ bit_length n"
proof (induction n rule: bit_length.induct)
  case (1 n)
  define l where "l = bit_length (n div 2)"
  have b: "bit_length n = Suc l"
    using "1.prems" by (simp add: bit_length_pos l_def)
  show ?case
  proof (cases "n = 1")
    case True
    then have "l = 0" by (simp add: l_def bit_length_nonpos)
    with True b show ?thesis by simp
  next
    case False
    with "1.prems" have h: "0 < n div 2" by simp
    with "1.IH" "1.prems" have ih: "2 ^ (l - 1) \<le> n div 2" "n div 2 < 2 ^ l"
      by (simp_all add: l_def)
    from h have "l = Suc (bit_length (n div 2 div 2))"
      unfolding l_def by (rule bit_length_pos)
    then have e: "(2::int) ^ l = 2 * 2 ^ (l - 1)"
      by simp
    from ih e have "2 ^ l \<le> n" "n < 2 * 2 ^ l"
      by linarith+
    then show ?thesis by (simp add: b)
  qed
qed

lemma bit_length_le: "0 < n \<Longrightarrow> n < 2 ^ k \<Longrightarrow> bit_length n \<le> k"
proof (rule ccontr)
  assume n: "0 < n" "n < 2 ^ k" and "\<not> bit_length n \<le> k"
  then have "k \<le> bit_length n - 1" by simp
  then have "(2::int) ^ k \<le> 2 ^ (bit_length n - 1)"
    by (rule power_increasing) simp
  with bit_length_bounds [OF n(1)] n(2) show False by linarith
qed

lemma bit_length_gt0: "0 < n \<Longrightarrow> 0 < bit_length n"
  by (simp add: bit_length_pos)

text \<open>Powers of two with an integer exponent, split into numerator and denominator.\<close>

lemma binade_bounds:
  assumes "0 < a" and "0 < b"
  shows "b * 2 ^ nat (binade a b) \<le> a * 2 ^ nat (- binade a b)"
    and "a * 2 ^ nat (- (binade a b + 1)) < b * 2 ^ nat (binade a b + 1)"
proof -
  define la where "la = bit_length a"
  define lb where "lb = bit_length b"
  have la: "2 ^ (la - 1) \<le> a" "a < 2 ^ la" "0 < la"
    using bit_length_bounds [OF assms(1)] bit_length_gt0 [OF assms(1)] by (simp_all add: la_def)
  have lb: "2 ^ (lb - 1) \<le> b" "b < 2 ^ lb" "0 < lb"
    using bit_length_bounds [OF assms(2)] bit_length_gt0 [OF assms(2)] by (simp_all add: lb_def)
  have t: "binade a b =
      (if b * 2 ^ (la - lb) \<le> a * 2 ^ (lb - la) then int la - int lb else int la - int lb - 1)"
    by (simp add: binade_def la_def lb_def)
  have pa: "(2::int) ^ la = 2 * 2 ^ (la - 1)" and pb: "(2::int) ^ lb = 2 * 2 ^ (lb - 1)"
    using la(3) lb(3) by (simp_all add: power_eq_if)
  show "b * 2 ^ nat (binade a b) \<le> a * 2 ^ nat (- binade a b)"
    and "a * 2 ^ nat (- (binade a b + 1)) < b * 2 ^ nat (binade a b + 1)"
  proof -
    consider (ge) "lb \<le> la" | (lt) "la < lb" by linarith
    then have "b * 2 ^ nat (binade a b) \<le> a * 2 ^ nat (- binade a b) \<and>
      a * 2 ^ nat (- (binade a b + 1)) < b * 2 ^ nat (binade a b + 1)"
    proof cases
      case ge
      define d where "d = la - lb"
      have d: "la = lb + d" "lb - la = 0" using ge by (simp_all add: d_def)
      have la_eq: "(2::int) ^ la = 2 ^ lb * 2 ^ d"
        by (simp add: d power_add)
      show ?thesis
      proof (cases "b * 2 ^ d \<le> a")
        case True
        then have tt: "binade a b = int d"
          using ge by (simp add: t d_def)
        have "a < 2 * 2 ^ (lb - 1) * 2 ^ d"
          using la(2) la_eq pb by simp
        also have "\<dots> \<le> 2 * b * 2 ^ d"
          using lb(1) by (simp add: mult_right_mono)
        finally have "a < b * 2 ^ (d + 1)" by (simp add: mult.commute mult.left_commute)
        with True show ?thesis
          by (simp add: tt nat_add_distrib)
      next
        case False
        then have tt: "binade a b = int d - 1"
          using ge by (simp add: t d_def)
        show ?thesis
        proof (cases d)
          case 0
          from False 0 have "a < b" by simp
          moreover have "b \<le> a * 2"
            using la(1) lb(2) la_eq pa 0 by simp
          ultimately show ?thesis by (simp add: tt 0)
        next
          case (Suc d')
          have "b * 2 ^ d' \<le> 2 ^ lb * 2 ^ d'"
            using lb(2) by (simp add: mult_right_mono)
          also have "2 * \<dots> = 2 ^ la"
            by (simp add: la_eq Suc)
          finally have "b * 2 ^ d' \<le> a"
            using la(1) pa by simp
          with False show ?thesis
            by (simp add: tt Suc nat_add_distrib)
        qed
      qed
    next
      case lt
      define d where "d = lb - la"
      have d: "lb = la + d" "la - lb = 0" "0 < d" using lt by (simp_all add: d_def)
      have lb_eq: "(2::int) ^ lb = 2 ^ la * 2 ^ d"
        by (simp add: d power_add)
      obtain d' where d': "d = Suc d'" using d(3) by (cases d) simp_all
      show ?thesis
      proof (cases "b \<le> a * 2 ^ d")
        case True
        then have tt: "binade a b = - int d"
          using lt by (simp add: t d_def)
        have "a * 2 ^ d' < 2 ^ la * 2 ^ d'"
          using la(2) by (simp add: mult_strict_right_mono)
        also have "2 * (2 ^ la * 2 ^ d') = (2::int) ^ lb"
          by (simp add: lb_eq d')
        finally have "a * 2 ^ d' < b"
          using lb(1) pb by simp
        with True show ?thesis
          by (simp add: tt d' nat_add_distrib)
      next
        case False
        then have tt: "binade a b = - int d - 1"
          using lt by (simp add: t d_def)
        have "b < 2 * 2 ^ (la - 1) * 2 ^ d"
          using lb(2) lb_eq pa by simp
        also have "\<dots> \<le> 2 * a * 2 ^ d"
          using la(1) by (simp add: mult_right_mono)
        finally have "b \<le> a * 2 ^ (d + 1)" by (simp add: mult.commute mult.left_commute)
        with False show ?thesis
          by (simp add: tt nat_add_distrib)
      qed
    qed
    then show "b * 2 ^ nat (binade a b) \<le> a * 2 ^ nat (- binade a b)"
      and "a * 2 ^ nat (- (binade a b + 1)) < b * 2 ^ nat (binade a b + 1)"
      by simp_all
  qed
qed

lemma div_eqI: "k * d \<le> m \<Longrightarrow> m < (k + 1) * d \<Longrightarrow> m div d = k" for m d k :: int
  by (rule int_div_pos_eq [of m d k "m - k * d"]) (simp_all add: algebra_simps)

lemma round_half_even_cases:
  "round_half_even a b = a div b \<and> 2 * (a mod b) \<le> b \<or>
   round_half_even a b = a div b + 1 \<and> b \<le> 2 * (a mod b)"
  by (simp add: round_half_even_def Let_def)

lemma round_half_even_ge:
  assumes "0 < b" and "(2 * i - 1) * b < 2 * a"
  shows "i \<le> round_half_even a b"
proof -
  define q where "q = a div b"
  define r where "r = a mod b"
  have a: "a = q * b + r" by (simp add: q_def r_def)
  have r: "0 \<le> r" "r < b" using assms(1) by (simp_all add: r_def)
  from round_half_even_cases [of a b]
  consider "round_half_even a b = q" "2 * r \<le> b" | "round_half_even a b = q + 1"
    by (auto simp: q_def r_def)
  then show ?thesis
  proof cases
    case 1
    from assms(2) 1(2) have "(2 * i - 1) * b < (2 * q + 1) * b"
      by (simp add: a algebra_simps)
    with assms(1) have "2 * i - 1 < 2 * q + 1"
      by (simp add: mult_less_cancel_right)
    with 1(1) show ?thesis by simp
  next
    case 2
    from assms(2) r(2) have "(2 * i - 1) * b < (2 * q + 2) * b"
      by (simp add: a algebra_simps)
    with assms(1) have "2 * i - 1 < 2 * q + 2"
      by (simp add: mult_less_cancel_right)
    with 2 show ?thesis by simp
  qed
qed

lemma round_half_even_le:
  assumes "0 < b" and "2 * a < (2 * j + 1) * b"
  shows "round_half_even a b \<le> j"
proof -
  define q where "q = a div b"
  define r where "r = a mod b"
  have a: "a = q * b + r" by (simp add: q_def r_def)
  have r: "0 \<le> r" "r < b" using assms(1) by (simp_all add: r_def)
  from round_half_even_cases [of a b]
  consider "round_half_even a b = q" | "round_half_even a b = q + 1" "b \<le> 2 * r"
    by (auto simp: q_def r_def)
  then show ?thesis
  proof cases
    case 1
    from assms(2) r(1) have "(2 * q) * b < (2 * j + 1) * b"
      by (simp add: a algebra_simps)
    with assms(1) have "2 * q < 2 * j + 1"
      by (simp add: mult_less_cancel_right)
    with 1 show ?thesis by simp
  next
    case 2
    from assms(2) 2(2) have "(2 * q + 1) * b < (2 * j + 1) * b"
      by (simp add: a algebra_simps)
    with assms(1) have "2 * q + 1 < 2 * j + 1"
      by (simp add: mult_less_cancel_right)
    with 2(1) show ?thesis by simp
  qed
qed

lemma round_half_even_exact: "0 < b \<Longrightarrow> round_half_even (i * b) b = i"
  by (simp add: round_half_even_def)

text \<open>
  The quotient \<open>a / b\<close>, rounded to a double and truncated to an integer, is \<open>K\<close>
  whenever \<open>a / b\<close> lies between \<open>K\<close> and \<open>K + 1\<close> with a margin of one part in
  \<open>2 ^ 53\<close>.
\<close>

lemma nearest_double_mantissa:
  assumes "0 < a" and "0 < b"
    and "a < 2 ^ 53 * b" and "b \<le> a * 2 ^ 1022"
  obtains k where
    "nearest_double a b = (round_half_even (a * 2 ^ k) b, - int k)"
    "2 ^ 52 * b \<le> a * 2 ^ k" "a * 2 ^ k < 2 ^ 53 * b"
proof -
  define t where "t = binade a b"
  note B = binade_bounds [OF assms(1,2), folded t_def]
  have t_le: "t \<le> 52"
  proof (rule ccontr)
    assume "\<not> t \<le> 52"
    then have "53 \<le> nat t" "nat (- t) = 0" by simp_all
    then have "(2::int) ^ 53 \<le> 2 ^ nat t"
      by (intro power_increasing) simp_all
    then have "b * 2 ^ 53 \<le> b * 2 ^ nat t"
      using assms(2) by (simp add: mult_left_mono)
    with B(1) \<open>nat (- t) = 0\<close> assms(3) show False by (simp add: mult.commute)
  qed
  have t_ge: "- 1022 \<le> t"
  proof (rule ccontr)
    assume "\<not> - 1022 \<le> t"
    then have "1022 \<le> nat (- (t + 1))" "nat (t + 1) = 0" by simp_all
    then have "(2::int) ^ 1022 \<le> 2 ^ nat (- (t + 1))"
      by (intro power_increasing) simp_all
    then have "a * 2 ^ 1022 \<le> a * 2 ^ nat (- (t + 1))"
      using assms(1) by (simp add: mult_left_mono)
    with B(2) \<open>nat (t + 1) = 0\<close> assms(4) show False by simp
  qed
  define k where "k = nat (52 - t)"
  have e: "max (t - 52) (- 1074) = - int k" "nat (- (- int k)) = k" "nat (- int k) = 0"
    using t_le t_ge by (simp_all add: k_def)
  have n: "nearest_double a b = (round_half_even (a * 2 ^ k) b, - int k)"
    using assms(1) by (simp add: nearest_double_def Let_def e t_def [symmetric])
  define V :: int where "V = 2 ^ k"
  have V: "0 < V" by (simp add: V_def)
  have "2 ^ 52 * b \<le> a * V \<and> a * V < 2 ^ 53 * b"
  proof (cases "0 \<le> t")
    case True
    define U :: int where "U = 2 ^ nat t"
    from True have s: "nat (- t) = 0" "nat (- (t + 1)) = 0" "nat (- t - 1) = 0"
      "nat (t + 1) = Suc (nat t)"
      by simp_all
    have "nat t + k = 52"
      using True t_le by (simp add: k_def)
    then have UV: "U * V = 2 ^ 52"
      by (simp add: U_def V_def power_add [symmetric])
    from B(1) have "b * U \<le> a"
      by (simp add: s U_def)
    then have "b * U * V \<le> a * V"
      using V by (intro mult_right_mono) simp_all
    moreover have "b * U * V = 2 ^ 52 * b"
      using UV by (simp add: mult.assoc)
    moreover from B(2) have "a < b * (2 * U)"
      by (simp add: s U_def)
    then have "a * V < b * (2 * U) * V"
      using V by (intro mult_strict_right_mono)
    moreover have "b * (2 * U) * V = 2 * (b * (U * V))"
      by (simp add: algebra_simps)
    ultimately show ?thesis
      by (simp add: UV)
  next
    case False
    define j where "j = nat (- (t + 1))"
    define W :: int where "W = 2 ^ j"
    from False have s: "nat (- t) = Suc j" "nat (t + 1) = 0" "nat t = 0" "k = 53 + j"
      by (simp_all add: j_def k_def)
    have VW: "V = 2 ^ 53 * W"
      by (simp add: V_def W_def s power_add)
    from B(1) have "b \<le> a * (2 * W)"
      by (simp add: s W_def)
    then have "b * 2 ^ 52 \<le> a * (2 * W) * 2 ^ 52"
      by (intro mult_right_mono) simp_all
    moreover from B(2) have "a * W < b"
      by (simp add: s W_def j_def)
    then have "a * W * 2 ^ 53 < b * 2 ^ 53"
      by (intro mult_strict_right_mono) simp_all
    ultimately show ?thesis
      by (simp add: VW)
  qed
  then have "2 ^ 52 * b \<le> a * 2 ^ k \<and> a * 2 ^ k < 2 ^ 53 * b"
    by (simp add: V_def)
  with n show thesis by (intro that) blast+
qed

lemma nearest_double_floor:
  assumes "0 < a" and "0 < b"
    and "a < 2 ^ 53 * b" and "b \<le> a * 2 ^ 1022"
    and low: "(K * b - a) * 2 ^ 54 < a"
    and up: "a * (2 ^ 53 + 1) < (K + 1) * b * 2 ^ 53"
    and "0 \<le> K"
  shows "int_of_float (nearest_double a b) = K"
proof -
  from assms(1-4) obtain k where
    n: "nearest_double a b = (round_half_even (a * 2 ^ k) b, - int k)"
    and lo: "2 ^ 52 * b \<le> a * 2 ^ k" and hi: "a * 2 ^ k < 2 ^ 53 * b"
    by (rule nearest_double_mantissa)
  define D :: int where "D = 2 ^ k"
  define X where "X = a * D"
  define P where "P = K * D * b"
  define Q where "Q = (K + 1) * D * b"
  define m where "m = round_half_even X b"
  have D: "0 < D" by (simp add: D_def)
  from low D have "(K * b - a) * 2 ^ 54 * D < a * D"
    by (rule mult_strict_right_mono)
  then have 1: "(P - X) * 2 ^ 54 < X"
    by (simp add: P_def X_def algebra_simps)
  from up D have "a * (2 ^ 53 + 1) * D < (K + 1) * b * 2 ^ 53 * D"
    by (rule mult_strict_right_mono)
  then have 2: "X * (2 ^ 53 + 1) < Q * 2 ^ 53"
    by (simp add: Q_def X_def algebra_simps)
  from lo hi have 3: "2 ^ 52 * b \<le> X" "X < 2 ^ 53 * b"
    by (simp_all add: X_def D_def)
  have "(2 * (K * D) - 1) * b = 2 * P - b"
    by (simp add: P_def algebra_simps)
  also have "\<dots> < 2 * X"
    using 1 3(2) by simp
  finally have ge: "K * D \<le> m"
    unfolding m_def using assms(2) by (intro round_half_even_ge)
  have "2 * X < 2 * Q - b"
    using 2 3(1) by simp
  also have "\<dots> = (2 * ((K + 1) * D - 1) + 1) * b"
    by (simp add: Q_def algebra_simps)
  finally have "m \<le> (K + 1) * D - 1"
    unfolding m_def using assms(2) by (intro round_half_even_le)
  then have lt: "m < (K + 1) * D" by simp
  from ge assms(7) D have m0: "0 \<le> m"
    by (meson mult_nonneg_nonneg order_less_imp_le order_trans)
  have md: "m div D = K"
    using ge lt by (rule div_eqI)
  have "int_of_float (nearest_double a b) = sgn m * (m div D)"
    using m0 by (simp add: n int_of_float_def m_def X_def D_def)
  then show ?thesis
    using md m0 by (cases "m = 0") (auto simp: sgn_if)
qed

lemma float_of_int_exact:
  assumes "0 < n" and "n < 2 ^ 53"
  obtains k where "float_of_int n = Inr (n * 2 ^ k, - int k)"
proof -
  have "1 * 1 \<le> n * (2::int) ^ 1022"
    using assms(1) by (intro mult_mono) simp_all
  then have "n < 2 ^ 53 * 1" "1 \<le> n * 2 ^ 1022"
    using assms(2) by (simp_all only: mult_1_right mult_1)
  with assms(1) zero_less_one obtain k where
    "nearest_double n 1 = (round_half_even (n * 2 ^ k) 1, - int k)"
    "2 ^ 52 * 1 \<le> n * 2 ^ k" "n * 2 ^ k < 2 ^ 53 * 1"
    by (rule nearest_double_mantissa)
  moreover have "round_half_even (n * 2 ^ k) 1 = n * 2 ^ k"
    using round_half_even_exact [of 1 "n * 2 ^ k"] by simp
  ultimately have "float_of_int n = Inr (n * 2 ^ k, - int k)"
    using assms(1) by (simp add: float_of_int_def overflows_def)
  then show thesis by (rule that)
qed

lemma hard_bound_floor:
  assumes n: "0 < n" "n < 2 ^ 53"
    and lit: "nearest_double num den = (c, - int j)" "0 < c" "j \<le> 1022"
    and range: "c * n < 2 ^ 53 * 2 ^ j"
    and low: "(K * 2 ^ j - c * n) * 2 ^ 54 < c * n"
    and up: "c * n * (2 ^ 53 + 1) < (K + 1) * 2 ^ j * 2 ^ 53"
    and K: "0 \<le> K"
  shows "hard_bound num den n = Inr K"
proof -
  from n obtain k where f: "float_of_int n = Inr (n * 2 ^ k, - int k)"
    by (rule float_of_int_exact)
  define F :: int where "F = 2 ^ k"
  define a where "a = c * n * F"
  define b where "b = 2 ^ j * F"
  have F: "0 < F" by (simp add: F_def)
  have a: "0 < a" using n(1) lit(2) F by (simp add: a_def)
  have b: "0 < b" using F by (simp add: b_def)
  have m: "float_mul (c, - int j) (n * 2 ^ k, - int k) = nearest_double a b"
  proof -
    have "\<bar>c * (n * 2 ^ k)\<bar> = a" "sgn (c * (n * 2 ^ k)) = 1"
      using a by (simp_all add: a_def F_def mult.assoc)
    moreover have "nat (- int j - int k) = 0" "nat (int j + int k) = j + k"
      "nat (int k + int j) = j + k"
      by simp_all
    moreover have "(2::int) ^ (j + k) = b"
      by (simp add: b_def F_def power_add)
    ultimately show ?thesis
      by (simp add: float_mul_def split: prod.splits)
  qed
  have 1: "a < 2 ^ 53 * b"
  proof -
    from range F have "c * n * F < 2 ^ 53 * 2 ^ j * F"
      by (rule mult_strict_right_mono)
    then show ?thesis by (simp add: a_def b_def mult.assoc)
  qed
  have 2: "b \<le> a * 2 ^ 1022"
  proof -
    define P :: int where "P = 2 ^ 1022"
    have "(2::int) ^ j \<le> 2 ^ 1022"
      using lit(3) by (intro power_increasing) simp_all
    then have "2 ^ j \<le> P" by (simp only: P_def)
    moreover have "0 < c * n"
      using n(1) lit(2) by (simp add: zero_less_mult_iff)
    then have "1 * P \<le> (c * n) * P"
      by (intro mult_right_mono) (simp_all add: P_def)
    ultimately have "2 ^ j \<le> c * n * P" by simp
    then have "2 ^ j * F \<le> c * n * P * F"
      using F by (intro mult_right_mono) simp_all
    then have "b \<le> a * P"
      by (simp add: a_def b_def algebra_simps)
    then show ?thesis by (simp only: P_def)
  qed
  have 3: "(K * b - a) * 2 ^ 54 < a"
  proof -
    from low F have "(K * 2 ^ j - c * n) * 2 ^ 54 * F < c * n * F"
      by (rule mult_strict_right_mono)
    then show ?thesis by (simp add: a_def b_def algebra_simps)
  qed
  have 4: "a * (2 ^ 53 + 1) < (K + 1) * b * 2 ^ 53"
  proof -
    from up F have "c * n * (2 ^ 53 + 1) * F < (K + 1) * 2 ^ j * 2 ^ 53 * F"
      by (rule mult_strict_right_mono)
    then show ?thesis by (simp add: a_def b_def algebra_simps)
  qed
  from a b 1 2 3 4 K have "int_of_float (nearest_double a b) = K"
    by (rule nearest_double_floor)
  then show ?thesis
    by (simp add: hard_bound_def f lit(1) m)
qed

lemma float_literals:
  "nearest_double 2 10 = (7205759403792794, - int 55)"
  "nearest_double 5 10 = (4503599627370496, - int 53)"
  "nearest_double 3 10 = (5404319552844595, - int 54)"
  by code_simp+

lemma hard_bound_zero: "hard_bound num den 0 = Inr 0"
  by (simp add: hard_bound_def float_of_int_def nearest_double_def overflows_def float_mul_def
      int_of_float_def split: prod.splits)

lemma hard_bounds_are_floors:
  assumes "0 \<le> income" and "income < 2 ^ 52"
  shows "hard_bound 2 10 income = Inr (income div 5)"
    and "hard_bound 5 10 income = Inr (income div 2)"
    and "hard_bound 3 10 income = Inr (3 * income div 10)"
proof -
  show "hard_bound 2 10 income = Inr (income div 5)"
  proof (cases "income = 0")
    case True
    then show ?thesis by (simp add: hard_bound_zero)
  next
    case False
    with assms have n: "0 < income" "income < 2 ^ 53" "income < 2 ^ 52" by simp_all
    define K where "K = income div 5"
    have K: "5 * K \<le> income" "income < 5 * K + 5" "0 \<le> K"
      using n(1) by (simp_all add: K_def)
    show ?thesis
      unfolding K_def [symmetric]
    proof (rule hard_bound_floor [OF n(1,2) float_literals(1)])
      show "(K * 2 ^ 55 - 7205759403792794 * income) * 2 ^ 54 < 7205759403792794 * income"
        using K n by simp
      show "7205759403792794 * income * (2 ^ 53 + 1) < (K + 1) * 2 ^ 55 * 2 ^ 53"
        using K n by simp
    qed (use K n in simp_all)
  qed
  show "hard_bound 5 10 income = Inr (income div 2)"
  proof (cases "income = 0")
    case True
    then show ?thesis by (simp add: hard_bound_zero)
  next
    case False
    with assms have n: "0 < income" "income < 2 ^ 53" "income < 2 ^ 52" by simp_all
    define K where "K = income div 2"
    have K: "2 * K \<le> income" "income < 2 * K + 2" "0 \<le> K"
      using n(1) by (simp_all add: K_def)
    show ?thesis
      unfolding K_def [symmetric]
    proof (rule hard_bound_floor [OF n(1,2) float_literals(2)])
      show "(K * 2 ^ 53 - 4503599627370496 * income) * 2 ^ 54 < 4503599627370496 * income"
        using K n by simp
      show "4503599627370496 * income * (2 ^ 53 + 1) < (K + 1) * 2 ^ 53 * 2 ^ 53"
        using K n by simp
    qed (use K n in simp_all)
  qed
  show "hard_bound 3 10 income = Inr (3 * income div 10)"
  proof (cases "income = 0")
    case True
    then show ?thesis by (simp add: hard_bound_zero)
  next
    case False
    with assms have n: "0 < income" "income < 2 ^ 53" "income < 2 ^ 52" by simp_all
    define K where "K = 3 * income div 10"
    have K: "10 * K \<le> 3 * income" "3 * income < 10 * K + 10" "0 \<le> K"
      using n(1) by (simp_all add: K_def)
    show ?thesis
      unfolding K_def [symmetric]
    proof (rule hard_bound_floor [OF n(1,2) float_literals(3)])
      show "(K * 2 ^ 54 - 5404319552844595 * income) * 2 ^ 54 < 5404319552844595 * income"
        using K n by simp
      show "5404319552844595 * income * (2 ^ 53 + 1) < (K + 1) * 2 ^ 54 * 2 ^ 53"
        using K n by simp
    qed (use K n in simp_all)
  qed
qed

lemma weight_zero_current:
  assumes "\<bar>scale\<bar> < 2 ^ 53"
  shows "weight scale 0 = Inr (max 1 scale)"
proof (cases "scale = 0")
  case True
  then show ?thesis
    by (simp add: weight_def truediv_def nearest_double_def overflows_def py_round_def
        round_half_even_def)
next
  case False
  then have p: "0 < \<bar>scale\<bar>" by simp
  have "1 * 1 \<le> \<bar>scale\<bar> * (2::int) ^ 1022"
    using p by (intro mult_mono) simp_all
  then have "\<bar>scale\<bar> < 2 ^ 53 * 1" "1 \<le> \<bar>scale\<bar> * 2 ^ 1022"
    using assms by (simp_all only: mult_1_right mult_1)
  with p zero_less_one obtain k where
    n: "nearest_double \<bar>scale\<bar> 1 = (round_half_even (\<bar>scale\<bar> * 2 ^ k) 1, - int k)"
    "2 ^ 52 * 1 \<le> \<bar>scale\<bar> * 2 ^ k" "\<bar>scale\<bar> * 2 ^ k < 2 ^ 53 * 1"
    by (rule nearest_double_mantissa)
  have r: "round_half_even (\<bar>scale\<bar> * 2 ^ k) 1 = \<bar>scale\<bar> * 2 ^ k"
    using round_half_even_exact [of 1 "\<bar>scale\<bar> * 2 ^ k"] by simp
  have "truediv scale (0 + 1) = Inr (sgn scale * (\<bar>scale\<bar> * 2 ^ k), - int k)"
    by (simp add: truediv_def n(1) r overflows_def)
  moreover have "sgn scale * (\<bar>scale\<bar> * 2 ^ k) = scale * 2 ^ k"
    by (simp add: mult.assoc [symmetric] mult_sgn_abs)
  moreover have "py_round (scale * 2 ^ k, - int k) = scale"
    using round_half_even_exact [of "2 ^ k" scale] by (simp add: py_round_def)
  ultimately show ?thesis
    by (simp add: weight_def)
qed

section \<open>The reference scenario and the budget of zero\<close>

lemma the_model_reached:
  assumes "list_all (\<lambda>cat. \<exists>x. weight scale (get cur cat 0) = Inr x) categories"
    and "list_all (\<lambda>cat. int64 (get cur cat 0)) categories"
    and "int64 (income ^ 2)"
    and "hard_bound 2 10 income = Inr b1" and "hard_bound 5 10 income = Inr b2"
    and "hard_bound 3 10 income = Inr b3"
    and "int64 b1" and "int64 b2" and "int64 b3"
  obtains w where "the_model cur income scale = Inr (w, assembled_model cur w income b1 b2 b3)"
proof -
  from assms(1) obtain w where w: "weights cur scale = Inr w"
    unfolding weights_def using weights_loop_Inr by blast
  from assms(2,3) have "list_all (category_fits cur income) categories"
    by (simp add: category_fits_def list_all_iff)
  then obtain m0 terms where
    l: "variable_loop cur w income categories (CpModel, []) = Inr (m0, terms)"
    using variable_loop_fits [of cur income categories w "(CpModel, [])"] by fastforce
  have "\<exists>model. the_model cur income scale = Inr (w, model)"
    using assms(4-9) int64_income(1) [OF assms(3)]
    by (simp add: the_model_def then_do_def w l Add_def list_all_iff)
  then obtain model where t: "the_model cur income scale = Inr (w, model)" ..
  then obtain c1 c2 c3 where "hard_bound 2 10 income = Inr c1" "hard_bound 5 10 income = Inr c2"
    "hard_bound 3 10 income = Inr c3" "model = assembled_model cur w income c1 c2 c3"
    by (rule the_model_Inr)
  with assms(4-6) t have "the_model cur income scale =
      Inr (w, assembled_model cur w income b1 b2 b3)"
    by simp
  then show thesis by (rule that)
qed

lemma reference_weight_values:
  "weight 1000 100 = Inr 10" "weight 1000 1000 = Inr 1" "weight 1000 700 = Inr 1"
  "weight 1000 300 = Inr 3" "weight 1000 2000 = Inr 1" "weight 1000 1300 = Inr 1"
  by code_simp+

lemma reference_hard_bounds:
  "hard_bound 2 10 4000 = Inr 800" "hard_bound 5 10 4000 = Inr 2000"
  "hard_bound 3 10 4000 = Inr 1200"
  by code_simp+

lemma reference_current:
  assumes "same_budget cur reference_input"
  shows "get cur ''monthly_take_home'' 0 = 4000"
    and "get (store_totals 4000 cur) ''transport_expenditure'' 0 = 100"
    and "get (store_totals 4000 cur) ''food_expenditure'' 0 = 100"
    and "get (store_totals 4000 cur) ''housing_expenditure'' 0 = 1000"
    and "get (store_totals 4000 cur) ''insurance_expenditure'' 0 = 100"
    and "get (store_totals 4000 cur) ''other_needs_expenditure'' 0 = 700"
    and "get (store_totals 4000 cur) ''investment_expenditure'' 0 = 300"
    and "get (store_totals 4000 cur) ''monthly_savings'' 0 = 700"
    and "get (store_totals 4000 cur) ''total_needs'' 0 = 2000"
    and "get (store_totals 4000 cur) ''total_wants'' 0 = 1300"
proof -
  have r: "get reference_input ''monthly_take_home'' 0 = 4000"
    "get reference_input ''transport_expenditure'' 0 = 100"
    "get reference_input ''food_expenditure'' 0 = 100"
    "get reference_input ''housing_expenditure'' 0 = 1000"
    "get reference_input ''insurance_expenditure'' 0 = 100"
    "get reference_input ''other_needs_expenditure'' 0 = 700"
    "get reference_input ''investment_expenditure'' 0 = 300"
    "get reference_input ''monthly_savings'' 0 = 700"
    by (simp_all add: reference_input_def get_def)
  from assms have c: "get cur ''monthly_take_home'' 0 = 4000"
    "get cur ''transport_expenditure'' 0 = 100"
    "get cur ''food_expenditure'' 0 = 100"
    "get cur ''housing_expenditure'' 0 = 1000"
    "get cur ''insurance_expenditure'' 0 = 100"
    "get cur ''other_needs_expenditure'' 0 = 700"
    "get cur ''investment_expenditure'' 0 = 300"
    "get cur ''monthly_savings'' 0 = 700"
    by (simp_all add: same_budget_def supplied_categories_def needs_categories_def r)
  show "get cur ''monthly_take_home'' 0 = 4000" by (rule c)
  show "get (store_totals 4000 cur) ''transport_expenditure'' 0 = 100"
    and "get (store_totals 4000 cur) ''food_expenditure'' 0 = 100"
    and "get (store_totals 4000 cur) ''housing_expenditure'' 0 = 1000"
    and "get (store_totals 4000 cur) ''insurance_expenditure'' 0 = 100"
    and "get (store_totals 4000 cur) ''other_needs_expenditure'' 0 = 700"
    and "get (store_totals 4000 cur) ''investment_expenditure'' 0 = 300"
    and "get (store_totals 4000 cur) ''monthly_savings'' 0 = 700"
    and "get (store_totals 4000 cur) ''total_needs'' 0 = 2000"
    and "get (store_totals 4000 cur) ''total_wants'' 0 = 1300"
    by (simp_all add: get_store_totals current_total_wants_def current_total_needs_eq c)
qed

lemma same_budget_refl: "same_budget cur cur"
  by (simp add: same_budget_def list_all_iff)

text \<open>The model of the reference scenario, its weights and its objective.\<close>

lemma reference_model:
  assumes "same_budget cur reference_input"
    and "the_model (store_totals 4000 cur) 4000 1000 = Inr (w, model)"
  shows "model = assembled_model (store_totals 4000 cur) w 4000 800 2000 1200"
    and "the (w ''transport_expenditure'') = 10" and "the (w ''food_expenditure'') = 10"
    and "the (w ''housing_expenditure'') = 1" and "the (w ''insurance_expenditure'') = 10"
    and "the (w ''other_needs_expenditure'') = 1" and "the (w ''investment_expenditure'') = 3"
    and "the (w ''monthly_savings'') = 1" and "the (w ''total_needs'') = 1"
    and "the (w ''total_wants'') = 1"
proof -
  note cur = reference_current [OF assms(1)]
  from assms(2) obtain b1 b2 b3 where b:
    "weights (store_totals 4000 cur) 1000 = Inr w"
    "hard_bound 2 10 4000 = Inr b1" "hard_bound 5 10 4000 = Inr b2"
    "hard_bound 3 10 4000 = Inr b3"
    "model = assembled_model (store_totals 4000 cur) w 4000 b1 b2 b3"
    by (rule the_model_Inr)
  from b(2-5) show "model = assembled_model (store_totals 4000 cur) w 4000 800 2000 1200"
    by (simp add: reference_hard_bounds)
  have l: "list_all (\<lambda>cat. \<exists>x. w cat = Some x \<and>
      weight 1000 (get (store_totals 4000 cur) cat 0) = Inr x) categories"
    using weights_lookup [OF b(1)] by (auto simp: list_all_iff)
  from l show "the (w ''transport_expenditure'') = 10" and "the (w ''food_expenditure'') = 10"
    and "the (w ''housing_expenditure'') = 1" and "the (w ''insurance_expenditure'') = 10"
    and "the (w ''other_needs_expenditure'') = 1" and "the (w ''investment_expenditure'') = 3"
    and "the (w ''monthly_savings'') = 1" and "the (w ''total_needs'') = 1"
    and "the (w ''total_wants'') = 1"
    by (auto simp: list_all_categories cur reference_weight_values)
qed

lemma reference_objective:
  assumes "same_budget cur reference_input"
    and "the_model (store_totals 4000 cur) 4000 1000 = Inr (w, model)"
  shows "objective_value model a =
     10 * a (Quad ''transport_expenditure'') + 10 * a (Quad ''food_expenditure'')
       + a (Quad ''housing_expenditure'') + 10 * a (Quad ''insurance_expenditure'')
       + a (Quad ''other_needs_expenditure'') + 3 * a (Quad ''investment_expenditure'')
       + a (Quad ''monthly_savings'') + a (Quad ''total_needs'') + a (Quad ''total_wants'')"
    and "sum_list (map (\<lambda>cat. a (Quad cat) * the (w cat)) categories) = objective_value model a"
proof -
  note m = reference_model [OF assms]
  have o: "objective_value model a =
      sum_list (map (\<lambda>cat. the (w cat) * a (Quad cat)) categories)"
    by (simp add: m(1) objective_value_def assembled_model_fields comp_def)
  then show "objective_value model a =
     10 * a (Quad ''transport_expenditure'') + 10 * a (Quad ''food_expenditure'')
       + a (Quad ''housing_expenditure'') + 10 * a (Quad ''insurance_expenditure'')
       + a (Quad ''other_needs_expenditure'') + 3 * a (Quad ''investment_expenditure'')
       + a (Quad ''monthly_savings'') + a (Quad ''total_needs'') + a (Quad ''total_wants'')"
    by (simp add: categories_def m(2-))
  show "sum_list (map (\<lambda>cat. a (Quad cat) * the (w cat)) categories) = objective_value model a"
    by (simp add: o mult.commute)
qed

lemma square_at_least: "100 \<le> x \<Longrightarrow> 10000 \<le> x * x" for x :: int
  using mult_mono [of 100 x 100 x] by simp

lemma square_exactly: "100 \<le> x \<Longrightarrow> x * x \<le> 10000 \<Longrightarrow> x = 100" for x :: int
  using mult_mono [of 101 x 101 x] by (cases "101 \<le> x") simp_all

lemma reference_solution_feasible:
  assumes "same_budget cur reference_input"
    and "the_model (store_totals 4000 cur) 4000 1000 = Inr (w, model)"
  shows "feasible model reference_solution"
    and "objective_value model reference_solution = 20000"
proof -
  note cur = reference_current [OF assms(1)]
  note cur0 = reference_current [OF same_budget_refl]
  have "list_all (category_ok (store_totals 4000 cur) 4000 reference_solution) categories"
    by (simp add: list_all_categories category_ok_def cur cur0 factors_def
        reference_output_def get_def [of "_(_ \<mapsto> _)"])
  moreover have "list_all (holds reference_solution) (budget_constraints 4000 800 2000 1200)"
    by (simp add: holds_budget_constraints reference_output_def get_def)
  ultimately show "feasible model reference_solution"
    by (simp add: reference_model(1) [OF assms] feasible_assembled_model)
  show "objective_value model reference_solution = 20000"
    by (simp add: reference_objective(1) [OF assms] cur0 reference_output_def
        get_def [of "_(_ \<mapsto> _)"])
qed

lemma reference_feasible_facts:
  assumes "same_budget cur reference_input"
    and "the_model (store_totals 4000 cur) 4000 1000 = Inr (w, model)"
    and "feasible model a"
  shows "list_all (\<lambda>cat. 0 \<le> a (Quad cat)) categories"
    and "a (Quad ''monthly_savings'') =
           (a (Alloc ''monthly_savings'') - 700) * (a (Alloc ''monthly_savings'') - 700)"
    and "a (Quad ''total_wants'') =
           (a (Alloc ''total_wants'') - 1300) * (a (Alloc ''total_wants'') - 1300)"
    and "800 \<le> a (Alloc ''monthly_savings'')"
    and "a (Alloc ''total_wants'') \<le> 1200"
    and "a (Alloc ''total_needs'') \<le> 2000"
    and "a (Alloc ''total_needs'') + a (Alloc ''total_wants'') + a (Alloc ''monthly_savings'') = 4000"
proof -
  note cur = reference_current [OF assms(1)]
  from assms(3) have ok: "list_all (category_ok (store_totals 4000 cur) 4000 a) categories"
    and b: "list_all (holds a) (budget_constraints 4000 800 2000 1200)"
    by (simp_all add: reference_model(1) [OF assms(1,2)] feasible_assembled_model)
  from ok show "list_all (\<lambda>cat. 0 \<le> a (Quad cat)) categories"
    by (simp add: list_all_iff category_ok_def)
  from ok show "a (Quad ''monthly_savings'') =
           (a (Alloc ''monthly_savings'') - 700) * (a (Alloc ''monthly_savings'') - 700)"
    and "a (Quad ''total_wants'') =
           (a (Alloc ''total_wants'') - 1300) * (a (Alloc ''total_wants'') - 1300)"
    by (simp_all add: list_all_categories category_ok_def cur)
  from b show "800 \<le> a (Alloc ''monthly_savings'')"
    and "a (Alloc ''total_wants'') \<le> 1200"
    and "a (Alloc ''total_needs'') \<le> 2000"
    and "a (Alloc ''total_needs'') + a (Alloc ''total_wants'') + a (Alloc ''monthly_savings'') = 4000"
    by (simp_all add: holds_budget_constraints)
qed

lemma reference_lower_bound:
  assumes "same_budget cur reference_input"
    and "the_model (store_totals 4000 cur) 4000 1000 = Inr (w, model)"
    and "feasible model a"
  shows "20000 \<le> objective_value model a"
    and "objective_value model a \<le> 20000 \<Longrightarrow>
           a (Alloc ''monthly_savings'') = 800 \<and> a (Alloc ''total_needs'') = 2000 \<and>
           a (Alloc ''total_wants'') = 1200"
proof -
  note f = reference_feasible_facts [OF assms]
  define s where "s = a (Alloc ''monthly_savings'') - 700"
  define t where "t = 1300 - a (Alloc ''total_wants'')"
  have s: "100 \<le> s" and t: "100 \<le> t"
    using f(4,5) by (simp_all add: s_def t_def)
  have qs: "a (Quad ''monthly_savings'') = s * s"
    by (simp add: f(2) s_def)
  have qt: "a (Quad ''total_wants'') = t * t"
    by (simp add: f(3) t_def algebra_simps)
  have nonneg: "0 \<le> a (Quad ''transport_expenditure'')" "0 \<le> a (Quad ''food_expenditure'')"
    "0 \<le> a (Quad ''housing_expenditure'')" "0 \<le> a (Quad ''insurance_expenditure'')"
    "0 \<le> a (Quad ''other_needs_expenditure'')" "0 \<le> a (Quad ''investment_expenditure'')"
    "0 \<le> a (Quad ''total_needs'')"
    using f(1) by (simp_all add: list_all_categories)
  have lower: "s * s + t * t \<le> objective_value model a"
    using nonneg by (simp add: reference_objective(1) [OF assms(1,2)] qs qt)
  from square_at_least [OF s] square_at_least [OF t] lower
  show "20000 \<le> objective_value model a" by simp
  assume "objective_value model a \<le> 20000"
  with lower square_at_least [OF s] square_at_least [OF t]
  have "s * s \<le> 10000" "t * t \<le> 10000" by simp_all
  with s t have "s = 100" "t = 100"
    by (simp_all add: square_exactly)
  with f(7) show "a (Alloc ''monthly_savings'') = 800 \<and> a (Alloc ''total_needs'') = 2000 \<and>
           a (Alloc ''total_wants'') = 1200"
    by (simp add: s_def t_def)
qed

lemma reference_reaches_solver:
  assumes "same_budget cur reference_input"
  obtains w model where "the_model (store_totals 4000 cur) 4000 1000 = Inr (w, model)"
proof -
  note cur = reference_current [OF assms]
  have "list_all (\<lambda>cat. \<exists>x. weight 1000 (get (store_totals 4000 cur) cat 0) = Inr x) categories"
    by (simp add: list_all_categories cur reference_weight_values)
  moreover have "list_all (\<lambda>cat. int64 (get (store_totals 4000 cur) cat 0)) categories"
    by (simp add: list_all_categories cur int64_def)
  moreover have "int64 (4000 ^ 2)" "int64 800" "int64 2000" "int64 1200"
    by (simp_all add: int64_def)
  ultimately obtain w where "the_model (store_totals 4000 cur) 4000 1000 =
      Inr (w, assembled_model (store_totals 4000 cur) w 4000 800 2000 1200)"
    using reference_hard_bounds by (rule_tac the_model_reached [of 1000 "store_totals 4000 cur" 4000 800 2000 1200])
  then show thesis by (rule that)
qed

lemma recorded_run_exact:
  assumes "the_model (store_totals 4000 reference_input) 4000 1000 = Inr (w, model)"
  shows "solver_exact recorded_run model"
  using reference_solution_feasible [OF same_budget_refl assms]
    reference_lower_bound(1) [OF same_budget_refl assms]
  by (simp add: solver_exact_def recorded_run_def)

lemma zero_budget_current:
  assumes "get cur ''monthly_take_home'' 0 = 0"
    and "\<forall>cat\<in>set supplied_categories. get cur cat 0 = 0"
  shows "list_all (\<lambda>cat. get (store_totals 0 cur) cat 0 = 0) categories"
proof -
  from assms(2) have "get cur ''transport_expenditure'' 0 = 0"
    "get cur ''food_expenditure'' 0 = 0" "get cur ''housing_expenditure'' 0 = 0"
    "get cur ''insurance_expenditure'' 0 = 0" "get cur ''other_needs_expenditure'' 0 = 0"
    "get cur ''investment_expenditure'' 0 = 0" "get cur ''monthly_savings'' 0 = 0"
    by (simp_all add: supplied_categories_def needs_categories_def)
  then show ?thesis
    by (simp add: list_all_categories get_store_totals current_total_wants_def
        current_total_needs_eq)
qed

lemma zero_budget_model:
  assumes "get cur ''monthly_take_home'' 0 = 0"
    and "\<forall>cat\<in>set supplied_categories. get cur cat 0 = 0"
    and "the_model (store_totals 0 cur) 0 scale = Inr (w, model)"
  shows "feasible model zero_solution"
    and "feasible model a \<Longrightarrow> cat \<in> set categories \<Longrightarrow> a (Alloc cat) = 0 \<and> a (Quad cat) = 0"
proof -
  from assms(3) obtain b1 b2 b3 where
    "hard_bound 2 10 0 = Inr b1" "hard_bound 5 10 0 = Inr b2" "hard_bound 3 10 0 = Inr b3"
    "model = assembled_model (store_totals 0 cur) w 0 b1 b2 b3"
    by (rule the_model_Inr)
  then have m: "model = assembled_model (store_totals 0 cur) w 0 0 0 0"
    by (simp add: hard_bound_zero)
  have z: "get (store_totals 0 cur) cat 0 = 0" if "cat \<in> set categories" for cat
    using zero_budget_current [OF assms(1,2)] that by (simp add: list_all_iff)
  then have "list_all (category_ok (store_totals 0 cur) 0 zero_solution) categories"
    by (simp add: list_all_iff category_ok_def zero_solution_def)
  moreover have "list_all (holds zero_solution) (budget_constraints 0 0 0 0)"
    by (simp add: holds_budget_constraints zero_solution_def)
  ultimately show "feasible model zero_solution"
    by (simp add: m feasible_assembled_model)
  assume "feasible model a" and "cat \<in> set categories"
  then have "category_ok (store_totals 0 cur) 0 a cat"
    by (simp add: m feasible_assembled_model list_all_iff)
  then show "a (Alloc cat) = 0 \<and> a (Quad cat) = 0"
    by (simp add: category_ok_def)
qed

lemma zero_budget_reaches_solver:
  assumes "get cur ''monthly_take_home'' 0 = 0"
    and "\<forall>cat\<in>set supplied_categories. get cur cat 0 = 0"
    and "\<bar>scale\<bar> < 2 ^ 53"
  obtains w model where "the_model (store_totals 0 cur) 0 scale = Inr (w, model)"
proof -
  have "list_all (\<lambda>cat. \<exists>x. weight scale (get (store_totals 0 cur) cat 0) = Inr x) categories"
    using zero_budget_current [OF assms(1,2)] weight_zero_current [OF assms(3)]
    by (simp add: list_all_iff)
  moreover have "list_all (\<lambda>cat. int64 (get (store_totals 0 cur) cat 0)) categories"
    using zero_budget_current [OF assms(1,2)] by (simp add: list_all_iff int64_def)
  moreover have "int64 (0 ^ 2)" "int64 0"
    by (simp_all add: int64_def)
  ultimately obtain w where "the_model (store_totals 0 cur) 0 scale =
      Inr (w, assembled_model (store_totals 0 cur) w 0 0 0 0)"
    using hard_bound_zero [of 2 10] hard_bound_zero [of 5 10] hard_bound_zero [of 3 10]
    by (rule_tac the_model_reached [of scale "store_totals 0 cur" 0 0 0 0])
  then show thesis by (rule that)
qed

section \<open>Properties of a returned solution\<close>

text \<open>
  C1. Whenever the function returns a solution, with a sound solver, the allocation of
  every category is a non-negative multiple of its step, which is 10 for
  \<open>transport_expenditure\<close> and 50 for every other category, and lies between 0 and
  the income.
\<close>

theorem allocation_step_multiple_in_range:
  assumes "solver_sound solve"
    and "snd (optimize_budget_with_weighted_quadratic_loss_custom_units solve cur scale)
           = Inr (Some (result, loss))"
    and "cat \<in> set categories"
  shows "\<exists>k v. result cat = Some v \<and> 0 \<le> k \<and>
           v = k * (if cat = ''transport_expenditure'' then 10 else 50) \<and>
           0 \<le> v \<and> v \<le> get cur ''monthly_take_home'' 0"
proof -
  from assms(1,2) obtain a where
    ok: "list_all (category_ok (store_totals (get cur ''monthly_take_home'' 0) cur)
        (get cur ''monthly_take_home'' 0) a) categories"
    and r: "result = map_of (map (\<lambda>cat. (cat, a (Alloc cat))) categories)"
    by (rule optimize_solution)
  from ok assms(3) have c: "category_ok (store_totals (get cur ''monthly_take_home'' 0) cur)
        (get cur ''monthly_take_home'' 0) a cat"
    by (simp add: list_all_iff)
  have "result cat = Some (a (Alloc cat))"
    using assms(3) by (simp add: r result_lookup)
  moreover from c have "0 \<le> a (Units cat)"
    "a (Alloc cat) = a (Units cat) * (if cat = ''transport_expenditure'' then 10 else 50)"
    "0 \<le> a (Alloc cat)" "a (Alloc cat) \<le> get cur ''monthly_take_home'' 0"
    by (simp_all add: category_ok_def factors_def)
  ultimately show ?thesis by blast
qed

theorem allocation_step_multiple_in_range_witness:
  "\<exists>result loss.
     solver_sound (checking_solver reference_solution) \<and>
     snd (optimize_budget_with_weighted_quadratic_loss_custom_units
            (checking_solver reference_solution) reference_input 1000)
       = Inr (Some (result, loss)) \<and>
     ''transport_expenditure'' \<in> set categories \<and> ''monthly_savings'' \<in> set categories \<and>
     (\<exists>k v. result ''transport_expenditure'' = Some v \<and> 0 \<le> k \<and> v = k * 10 \<and>
        0 \<le> v \<and> v \<le> get reference_input ''monthly_take_home'' 0) \<and>
     (\<exists>k v. result ''monthly_savings'' = Some v \<and> 0 \<le> k \<and> v = k * 50 \<and>
        0 \<le> v \<and> v \<le> get reference_input ''monthly_take_home'' 0)"
proof -
  from reference_run obtain result loss where
    r: "snd (optimize_budget_with_weighted_quadratic_loss_custom_units
               (checking_solver reference_solution) reference_input 1000)
          = Inr (Some (result, loss))"
    by (auto split: sum.splits option.splits)
  have c: "''transport_expenditure'' \<in> set categories" "''monthly_savings'' \<in> set categories"
    by (simp_all add: categories_def)
  have "\<exists>k v. result ''transport_expenditure'' = Some v \<and> 0 \<le> k \<and> v = k * 10 \<and>
        0 \<le> v \<and> v \<le> get reference_input ''monthly_take_home'' 0"
    using allocation_step_multiple_in_range [OF checking_solver_sound r c(1)] by simp
  moreover have "\<exists>k v. result ''monthly_savings'' = Some v \<and> 0 \<le> k \<and> v = k * 50 \<and>
        0 \<le> v \<and> v \<le> get reference_input ''monthly_take_home'' 0"
    using allocation_step_multiple_in_range [OF checking_solver_sound r c(2)] by simp
  ultimately show ?thesis
    using r c checking_solver_sound by blast
qed

text \<open>
  C2. Whenever the function returns a solution, with a sound solver, the five needs
  categories of the returned allocation add up to the returned \<open>total_needs\<close>, and
  \<open>total_needs + total_wants + monthly_savings\<close> is the income of the input.
\<close>

theorem accounting_identities:
  assumes "solver_sound solve"
    and "snd (optimize_budget_with_weighted_quadratic_loss_custom_units solve cur scale)
           = Inr (Some (result, loss))"
  shows "\<exists>tr fo ho ins oth tn tw ms.
           result ''transport_expenditure'' = Some tr \<and> result ''food_expenditure'' = Some fo \<and>
           result ''housing_expenditure'' = Some ho \<and> result ''insurance_expenditure'' = Some ins \<and>
           result ''other_needs_expenditure'' = Some oth \<and> result ''total_needs'' = Some tn \<and>
           result ''total_wants'' = Some tw \<and> result ''monthly_savings'' = Some ms \<and>
           tr + fo + ho + ins + oth = tn \<and>
           tn + tw + ms = get cur ''monthly_take_home'' 0"
proof -
  from assms obtain a b1 b2 b3 where
    b: "list_all (holds a) (budget_constraints (get cur ''monthly_take_home'' 0) b1 b2 b3)"
    and r: "result = map_of (map (\<lambda>cat. (cat, a (Alloc cat))) categories)"
    by (rule optimize_solution)
  have "result cat = Some (a (Alloc cat))" if "cat \<in> set categories" for cat
    using that by (simp add: r result_lookup)
  then have "list_all (\<lambda>cat. result cat = Some (a (Alloc cat))) categories"
    by (simp add: list_all_iff)
  with b show ?thesis
    by (simp add: list_all_categories holds_budget_constraints)
qed

theorem accounting_identities_witness:
  "\<exists>result loss.
     solver_sound (checking_solver reference_solution) \<and>
     snd (optimize_budget_with_weighted_quadratic_loss_custom_units
            (checking_solver reference_solution) reference_input 1000)
       = Inr (Some (result, loss)) \<and>
     (\<exists>tr fo ho ins oth tn tw ms.
        result ''transport_expenditure'' = Some tr \<and> result ''food_expenditure'' = Some fo \<and>
        result ''housing_expenditure'' = Some ho \<and> result ''insurance_expenditure'' = Some ins \<and>
        result ''other_needs_expenditure'' = Some oth \<and> result ''total_needs'' = Some tn \<and>
        result ''total_wants'' = Some tw \<and> result ''monthly_savings'' = Some ms \<and>
        tr + fo + ho + ins + oth = tn \<and>
        tn + tw + ms = get reference_input ''monthly_take_home'' 0)"
proof -
  from reference_run obtain result loss where
    r: "snd (optimize_budget_with_weighted_quadratic_loss_custom_units
               (checking_solver reference_solution) reference_input 1000)
          = Inr (Some (result, loss))"
    by (auto split: sum.splits option.splits)
  from accounting_identities [OF checking_solver_sound r] r checking_solver_sound
  show ?thesis by blast
qed



section \<open>The hard bounds\<close>

text \<open>
  The bounds are computed in floating point, and the floats alone do not give the floors:
  for 6755470568062309, between \<open>2 ^ 52\<close> and \<open>2 ^ 53\<close>, the product
  \<open>0.2 * income\<close> rounds up to the next integer. A call with such an income does
  not get to the bounds: the square of the income does not fit 64 bits, and the loop
  that creates the variables raises \<^verbatim>\<open>TypeError\<close> at the first
  \<^verbatim>\<open>NewIntVar(0, income**2, ...)\<close>.
\<close>

lemma hard_bound_beyond_int64:
  "hard_bound 2 10 6755470568062309 = Inr 1351094113612462 \<and>
   6755470568062309 div 5 = (1351094113612461::int) \<and>
   \<not> int64 (6755470568062309 ^ 2)"
  by code_simp

lemma income_beyond_int64_raises:
  "snd (optimize_budget_with_weighted_quadratic_loss_custom_units solve
          [''monthly_take_home'' \<mapsto> 6755470568062309] 1000) = Inl TypeError"
proof -
  have "case the_model (store_totals 6755470568062309 [''monthly_take_home'' \<mapsto> 6755470568062309])
          6755470568062309 1000 of
      Inl err \<Rightarrow> err = TypeError | Inr r \<Rightarrow> False"
    by code_simp
  then show ?thesis
    by (simp add: optimize_budget_with_weighted_quadratic_loss_custom_units_def get_def Let_def
        split: sum.splits)
qed

lemma int64_square_below_2_52:
  assumes "0 \<le> income" and "int64 (income ^ 2)"
  shows "income < 2 ^ 52"
proof (rule ccontr)
  assume "\<not> income < 2 ^ 52"
  then have "(2::int) ^ 52 * 2 ^ 52 \<le> income * income"
    by (intro mult_mono) simp_all
  with assms(2) show False
    by (simp add: int64_def power2_eq_square)
qed

lemma the_model_income_fits:
  assumes "the_model cur income scale = Inr (w, model)"
  shows "int64 (income ^ 2)"
proof -
  from assms have "list_all (category_fits cur income) categories"
    by (rule the_model_Inr)
  then show ?thesis
    by (simp add: list_all_categories category_fits_def)
qed

lemma optimize_income_fits:
  assumes "solver_sound solve"
    and "snd (optimize_budget_with_weighted_quadratic_loss_custom_units solve cur scale)
           = Inr (Some (result, loss))"
  shows "0 \<le> get cur ''monthly_take_home'' 0" and "int64 (get cur ''monthly_take_home'' 0 ^ 2)"
proof -
  from assms obtain a where
    "list_all (category_ok (store_totals (get cur ''monthly_take_home'' 0) cur)
        (get cur ''monthly_take_home'' 0) a) categories"
    by (rule optimize_solution)
  then show "0 \<le> get cur ''monthly_take_home'' 0"
    by (simp add: list_all_categories category_ok_def)
  from assms(2) obtain w model where
    "the_model (store_totals (get cur ''monthly_take_home'' 0) cur)
       (get cur ''monthly_take_home'' 0) scale = Inr (w, model)"
    by (rule optimize_Some)
  then show "int64 (get cur ''monthly_take_home'' 0 ^ 2)"
    by (rule the_model_income_fits)
qed

text \<open>
  C3. For every non-negative income: whenever the call builds its model, the three hard
  bounds \<open>int(0.2 * income)\<close>, \<open>int(0.5 * income)\<close> and \<open>int(0.3 * income)\<close>
  are the exact floors of a fifth, a half and three tenths of the income, and these
  floors are the constants of the three bound constraints of the model; and every
  solution returned with a sound solver has \<open>monthly_savings\<close> at least the first,
  \<open>total_needs\<close> at most the second and \<open>total_wants\<close> at most the third.
\<close>

theorem hard_bounds_are_exact_floors:
  assumes "0 \<le> income" and "get cur ''monthly_take_home'' 0 = income"
  shows "(\<forall>w model. the_model (store_totals income cur) income scale = Inr (w, model) \<longrightarrow>
            hard_bound 2 10 income = Inr (income div 5) \<and>
            hard_bound 5 10 income = Inr (income div 2) \<and>
            hard_bound 3 10 income = Inr (3 * income div 10) \<and>
            [c \<leftarrow> constraints model. \<exists>e b. c = Ge e (Const b) \<or> c = Le e (Const b)] =
              [Ge (Var (Alloc ''monthly_savings'')) (Const (income div 5)),
               Le (Var (Alloc ''total_needs'')) (Const (income div 2)),
               Le (Var (Alloc ''total_wants'')) (Const (3 * income div 10))]) \<and>
         (solver_sound solve \<and>
          snd (optimize_budget_with_weighted_quadratic_loss_custom_units solve cur scale)
            = Inr (Some (result, loss)) \<longrightarrow>
          (\<exists>ms tn tw.
             result ''monthly_savings'' = Some ms \<and> result ''total_needs'' = Some tn \<and>
             result ''total_wants'' = Some tw \<and>
             income div 5 \<le> ms \<and> tn \<le> income div 2 \<and> tw \<le> 3 * income div 10))"
proof (intro conjI allI impI)
  fix w model
  assume t: "the_model (store_totals income cur) income scale = Inr (w, model)"
  then have "int64 (income ^ 2)" by (rule the_model_income_fits)
  with assms(1) have "income < 2 ^ 52" by (rule int64_square_below_2_52)
  with assms(1) have h: "hard_bound 2 10 income = Inr (income div 5)"
    "hard_bound 5 10 income = Inr (income div 2)"
    "hard_bound 3 10 income = Inr (3 * income div 10)"
    by (rule hard_bounds_are_floors)+
  from h show "hard_bound 2 10 income = Inr (income div 5)"
    and "hard_bound 5 10 income = Inr (income div 2)"
    and "hard_bound 3 10 income = Inr (3 * income div 10)" .
  from t obtain b1 b2 b3 where
    "hard_bound 2 10 income = Inr b1" "hard_bound 5 10 income = Inr b2"
    "hard_bound 3 10 income = Inr b3"
    "model = assembled_model (store_totals income cur) w income b1 b2 b3"
    by (rule the_model_Inr)
  with h have m: "model = assembled_model (store_totals income cur) w income
      (income div 5) (income div 2) (3 * income div 10)"
    by simp
  have "[c \<leftarrow> concat (map (category_constraints cur0) cats).
          \<exists>e b. c = Ge e (Const b) \<or> c = Le e (Const b)] = []" for cur0 cats
    by (induction cats) (simp_all add: category_constraints_def)
  then show "[c \<leftarrow> constraints model. \<exists>e b. c = Ge e (Const b) \<or> c = Le e (Const b)] =
      [Ge (Var (Alloc ''monthly_savings'')) (Const (income div 5)),
       Le (Var (Alloc ''total_needs'')) (Const (income div 2)),
       Le (Var (Alloc ''total_wants'')) (Const (3 * income div 10))]"
    by (simp add: m assembled_model_fields budget_constraints_def)
next
  assume "solver_sound solve \<and>
    snd (optimize_budget_with_weighted_quadratic_loss_custom_units solve cur scale)
      = Inr (Some (result, loss))"
  then have s: "solver_sound solve"
    and r: "snd (optimize_budget_with_weighted_quadratic_loss_custom_units solve cur scale)
      = Inr (Some (result, loss))"
    by simp_all
  from optimize_income_fits [OF s r] have "income < 2 ^ 52"
    unfolding assms(2) using assms(1) by (intro int64_square_below_2_52)
  with assms(1) have h: "hard_bound 2 10 income = Inr (income div 5)"
    "hard_bound 5 10 income = Inr (income div 2)"
    "hard_bound 3 10 income = Inr (3 * income div 10)"
    by (rule hard_bounds_are_floors)+
  from s r obtain a b1 b2 b3 where
    b: "hard_bound 2 10 income = Inr b1" "hard_bound 5 10 income = Inr b2"
      "hard_bound 3 10 income = Inr b3"
    and c: "list_all (holds a) (budget_constraints income b1 b2 b3)"
    and res: "result = map_of (map (\<lambda>cat. (cat, a (Alloc cat))) categories)"
    unfolding assms(2) [symmetric] by (rule optimize_solution)
  from b h have "b1 = income div 5" "b2 = income div 2" "b3 = 3 * income div 10"
    by simp_all
  with c have "income div 5 \<le> a (Alloc ''monthly_savings'')"
    "a (Alloc ''total_needs'') \<le> income div 2"
    "a (Alloc ''total_wants'') \<le> 3 * income div 10"
    by (simp_all add: holds_budget_constraints)
  moreover have "result ''monthly_savings'' = Some (a (Alloc ''monthly_savings''))"
    "result ''total_needs'' = Some (a (Alloc ''total_needs''))"
    "result ''total_wants'' = Some (a (Alloc ''total_wants''))"
    by (simp_all add: res categories_def)
  ultimately show "\<exists>ms tn tw.
      result ''monthly_savings'' = Some ms \<and> result ''total_needs'' = Some tn \<and>
      result ''total_wants'' = Some tw \<and>
      income div 5 \<le> ms \<and> tn \<le> income div 2 \<and> tw \<le> 3 * income div 10"
    by simp
qed

theorem hard_bounds_are_exact_floors_witness:
  "\<exists>w model result loss.
     (0::int) \<le> 4000 \<and> get reference_input ''monthly_take_home'' 0 = 4000 \<and>
     the_model (store_totals 4000 reference_input) 4000 1000 = Inr (w, model) \<and>
     hard_bound 2 10 4000 = Inr (4000 div 5) \<and>
     hard_bound 5 10 4000 = Inr (4000 div 2) \<and>
     hard_bound 3 10 4000 = Inr (3 * 4000 div 10) \<and>
     [c \<leftarrow> constraints model. \<exists>e b. c = Ge e (Const b) \<or> c = Le e (Const b)] =
       [Ge (Var (Alloc ''monthly_savings'')) (Const (4000 div 5)),
        Le (Var (Alloc ''total_needs'')) (Const (4000 div 2)),
        Le (Var (Alloc ''total_wants'')) (Const (3 * 4000 div 10))] \<and>
     solver_sound (checking_solver reference_solution) \<and>
     snd (optimize_budget_with_weighted_quadratic_loss_custom_units
            (checking_solver reference_solution) reference_input 1000)
       = Inr (Some (result, loss)) \<and>
     (\<exists>ms tn tw.
        result ''monthly_savings'' = Some ms \<and> result ''total_needs'' = Some tn \<and>
        result ''total_wants'' = Some tw \<and>
        4000 div 5 \<le> ms \<and> tn \<le> 4000 div 2 \<and> tw \<le> 3 * 4000 div 10)"
proof -
  from reference_run obtain result loss where
    r: "snd (optimize_budget_with_weighted_quadratic_loss_custom_units
               (checking_solver reference_solution) reference_input 1000)
          = Inr (Some (result, loss))"
    by (auto split: sum.splits option.splits)
  obtain w model where
    m: "the_model (store_totals 4000 reference_input) 4000 1000 = Inr (w, model)"
    using same_budget_refl by (rule reference_reaches_solver)
  have 1: "(0::int) \<le> 4000" by simp
  from hard_bounds_are_exact_floors [OF 1 reference_income,
      of 1000 "checking_solver reference_solution" result loss]
    r m checking_solver_sound reference_income 1
  show ?thesis by blast
qed

section \<open>What a call returns\<close>

text \<open>
  C5. The function is to return one of two shapes, a pair of an allocation and a loss or
  the no-solution signal, and a constraint set without a solution is never to end in an
  exception. On an income of 0 with savings of 1 the constraint set has no solution (the
  deviation of the savings would be \<open>- 1\<close> in the domain from 0 to 0), but the derived
  \<open>total_wants\<close> is \<open>- 1\<close>, the weight loop divides by \<open>total_wants + 1\<close>, and
  the call ends in \<open>ZeroDivisionError\<close>, which is neither shape.
\<close>

theorem exception_is_a_third_outcome:
  "snd (optimize_budget_with_weighted_quadratic_loss_custom_units solve zero_income_input 1000)
     = Inl ZeroDivisionError"
proof -
  have "case weights (store_totals 0 zero_income_input) 1000 of
          Inl err \<Rightarrow> err = ZeroDivisionError | Inr w \<Rightarrow> False"
    by code_simp
  then have "weights (store_totals 0 zero_income_input) 1000 = Inl ZeroDivisionError"
    by (simp split: sum.splits)
  moreover have "get zero_income_input ''monthly_take_home'' 0 = 0"
    by (simp add: zero_income_input_def get_def)
  ultimately show ?thesis
    by (simp add: optimize_raises)
qed

text \<open>
  The status handling itself does what it is to do. Whenever the call gets as far as the
  solver (building the model raises nothing), the status alone decides the
  shape of the result: on \<open>OPTIMAL\<close> or \<open>FEASIBLE\<close> a pair of a mapping over
  exactly the nine categories and an integer loss, on every other status the no-solution
  signal; and a model with no solution gives the no-solution signal under a sound solver.
\<close>

theorem status_decides_result_shape:
  assumes "the_model (store_totals (get cur ''monthly_take_home'' 0) cur)
             (get cur ''monthly_take_home'' 0) scale = Inr (w, model)"
  shows "(fst (solve model) \<in> {OPTIMAL, FEASIBLE} \<longrightarrow>
            (\<exists>result loss.
               snd (optimize_budget_with_weighted_quadratic_loss_custom_units solve cur scale)
                 = Inr (Some (result, loss)) \<and>
               dom result = set categories)) \<and>
         (fst (solve model) \<notin> {OPTIMAL, FEASIBLE} \<longrightarrow>
            snd (optimize_budget_with_weighted_quadratic_loss_custom_units solve cur scale)
              = Inr None) \<and>
         (solver_sound solve \<and> (\<forall>a. \<not> feasible model a) \<longrightarrow>
            snd (optimize_budget_with_weighted_quadratic_loss_custom_units solve cur scale)
              = Inr None)"
proof -
  have s: "solver_sound solve \<Longrightarrow> \<forall>a. \<not> feasible model a \<Longrightarrow>
      fst (solve model) \<notin> {OPTIMAL, FEASIBLE}"
    by (auto simp: solver_sound_def)
  show ?thesis
    using s
    by (cases "solve model")
      (auto simp: optimize_after_the_model [OF assms] extract_result_def Let_def result_dom)
qed

theorem status_decides_result_shape_witness:
  "\<exists>w model.
     the_model (store_totals (get reference_input ''monthly_take_home'' 0) reference_input)
       (get reference_input ''monthly_take_home'' 0) 1000 = Inr (w, model) \<and>
     fst (checking_solver reference_solution model) \<in> {OPTIMAL, FEASIBLE} \<and>
     (\<exists>result loss.
        snd (optimize_budget_with_weighted_quadratic_loss_custom_units
               (checking_solver reference_solution) reference_input 1000)
          = Inr (Some (result, loss)) \<and>
        dom result = set categories)"
proof -
  from reference_the_model obtain w model where
    m: "the_model (store_totals (get reference_input ''monthly_take_home'' 0) reference_input)
       (get reference_input ''monthly_take_home'' 0) 1000 = Inr (w, model)"
    and f: "fst (checking_solver reference_solution model) = FEASIBLE"
    by (auto simp: reference_income split: sum.splits)
  from status_decides_result_shape [OF m, of "checking_solver reference_solution"] m f
  show ?thesis by auto
qed

section \<open>The recorded scenario\<close>

text \<open>
  C6. On every dict that holds the budget of the notebook's example (transport 100, food
  100, housing 1000, insurance 100, other needs 700, investment 300, savings 700, income
  4000; any other keys are ignored) and with scale 1000, a solver that is exact on the
  model the call builds makes the function return a solution with \<open>monthly_savings\<close>
  800, \<open>total_needs\<close> 2000, \<open>total_wants\<close> 1200 and a loss of 20000.
\<close>

theorem reference_scenario:
  assumes "same_budget cur reference_input"
    and "\<And>w model. the_model (store_totals 4000 cur) 4000 1000 = Inr (w, model)
           \<Longrightarrow> solver_exact solve model"
  shows "\<exists>result.
           snd (optimize_budget_with_weighted_quadratic_loss_custom_units solve cur 1000)
             = Inr (Some (result, 20000)) \<and>
           result ''monthly_savings'' = Some 800 \<and>
           result ''total_needs'' = Some 2000 \<and>
           result ''total_wants'' = Some 1200"
proof -
  from assms(1) obtain w model where
    m: "the_model (store_totals 4000 cur) 4000 1000 = Inr (w, model)"
    by (rule reference_reaches_solver)
  then have exact: "solver_exact solve model" by (rule assms(2))
  note i = reference_current(1) [OF assms(1)]
  note r = reference_solution_feasible [OF assms(1) m]
  from exact r(1) have st: "fst (solve model) = OPTIMAL"
    and f: "feasible model (snd (solve model))"
    and "objective_value model (snd (solve model)) \<le> objective_value model reference_solution"
    by (auto simp: solver_exact_def)
  then have le: "objective_value model (snd (solve model)) \<le> 20000"
    by (simp add: r(2))
  note lb = reference_lower_bound [OF assms(1) m f]
  from lb(1) le have o: "objective_value model (snd (solve model)) = 20000"
    by simp
  from m have "snd (optimize_budget_with_weighted_quadratic_loss_custom_units solve cur 1000)
      = Inr (extract_result w (solve model))"
    by (simp add: optimize_after_the_model i)
  then have "snd (optimize_budget_with_weighted_quadratic_loss_custom_units solve cur 1000) =
      Inr (Some (map_of (map (\<lambda>cat. (cat, snd (solve model) (Alloc cat))) categories), 20000))"
    using st o
    by (cases "solve model")
      (simp add: extract_result_def reference_objective(2) [OF assms(1) m])
  moreover have "map_of (map (\<lambda>cat. (cat, snd (solve model) (Alloc cat))) categories) cat =
      Some (snd (solve model) (Alloc cat))" if "cat \<in> set categories" for cat
    using that by (rule result_lookup)
  ultimately show ?thesis
    using lb(2) [OF le] by (simp add: categories_def)
qed

theorem reference_scenario_witness:
  "same_budget reference_input reference_input \<and>
   (\<exists>w model. the_model (store_totals 4000 reference_input) 4000 1000 = Inr (w, model) \<and>
      solver_exact recorded_run model) \<and>
   (\<exists>result.
      snd (optimize_budget_with_weighted_quadratic_loss_custom_units
             recorded_run reference_input 1000) = Inr (Some (result, 20000)) \<and>
      result ''monthly_savings'' = Some 800 \<and>
      result ''total_needs'' = Some 2000 \<and>
      result ''total_wants'' = Some 1200)"
proof -
  obtain w model where
    m: "the_model (store_totals 4000 reference_input) 4000 1000 = Inr (w, model)"
    using same_budget_refl by (rule reference_reaches_solver)
  have "\<exists>result.
      snd (optimize_budget_with_weighted_quadratic_loss_custom_units
             recorded_run reference_input 1000) = Inr (Some (result, 20000)) \<and>
      result ''monthly_savings'' = Some 800 \<and>
      result ''total_needs'' = Some 2000 \<and>
      result ''total_wants'' = Some 1200"
  proof (rule reference_scenario [OF same_budget_refl])
    fix w' model'
    assume "the_model (store_totals 4000 reference_input) 4000 1000 = Inr (w', model')"
    then show "solver_exact recorded_run model'" by (rule recorded_run_exact)
  qed
  with m recorded_run_exact [OF m] same_budget_refl [of reference_input]
  show ?thesis by blast
qed

section \<open>An income of zero\<close>

text \<open>
  With an income of 0 every variable of the model can only be 0, so a current value other
  than 0 leaves the model without a solution: on an income of 0 and a current food
  expenditure of 100 no sound solver makes the function return a solution.
\<close>

theorem zero_income_infeasible_counterexample:
  "\<not> (\<exists>solve result loss.
        solver_sound solve \<and>
        snd (optimize_budget_with_weighted_quadratic_loss_custom_units solve unfunded_input 1000)
          = Inr (Some (result, loss)))"
proof
  assume "\<exists>solve result loss.
        solver_sound solve \<and>
        snd (optimize_budget_with_weighted_quadratic_loss_custom_units solve unfunded_input 1000)
          = Inr (Some (result, loss))"
  then obtain solve result loss where "solver_sound solve"
    "snd (optimize_budget_with_weighted_quadratic_loss_custom_units solve unfunded_input 1000)
          = Inr (Some (result, loss))"
    by blast
  then obtain a where
    "list_all (category_ok (store_totals (get unfunded_input ''monthly_take_home'' 0) unfunded_input)
        (get unfunded_input ''monthly_take_home'' 0) a) categories"
    by (rule optimize_solution)
  then have "category_ok (store_totals (get unfunded_input ''monthly_take_home'' 0) unfunded_input)
        (get unfunded_input ''monthly_take_home'' 0) a ''food_expenditure''"
    by (simp add: list_all_categories)
  moreover have "get unfunded_input ''monthly_take_home'' 0 = 0"
    "get unfunded_input ''food_expenditure'' 0 = 100"
    by (simp_all add: unfunded_input_def get_def)
  ultimately show False
    by (auto simp: category_ok_def get_store_totals)
qed

text \<open>
  C7, as amended. For every input with an income of 0 in which the seven supplied
  categories are 0 or absent, and a scale below \<open>2 ^ 53\<close> in magnitude, a solver
  that is sound and is complete on the model the call builds makes the function return a
  solution in which the allocation of every category is 0 and the loss is 0.
\<close>

theorem zero_budget_scenario:
  assumes "get cur ''monthly_take_home'' 0 = 0"
    and "\<forall>cat\<in>set supplied_categories. get cur cat 0 = 0"
    and "\<bar>scale\<bar> < 2 ^ 53"
    and "solver_sound solve"
    and "\<And>w model. the_model (store_totals 0 cur) 0 scale = Inr (w, model)
           \<Longrightarrow> solver_complete solve model"
  shows "\<exists>result.
           snd (optimize_budget_with_weighted_quadratic_loss_custom_units solve cur scale)
             = Inr (Some (result, 0)) \<and>
           (\<forall>cat\<in>set categories. result cat = Some 0)"
proof -
  from assms(1-3) obtain w model where
    m: "the_model (store_totals 0 cur) 0 scale = Inr (w, model)"
    by (rule zero_budget_reaches_solver)
  note z = zero_budget_model [OF assms(1,2) m]
  from m have "solver_complete solve model" by (rule assms(5))
  with z(1) have st: "fst (solve model) \<in> {OPTIMAL, FEASIBLE}"
    by (auto simp: solver_complete_def)
  with assms(4) have "feasible model (snd (solve model))"
    by (auto simp: solver_sound_def)
  then have v: "snd (solve model) (Alloc cat) = 0 \<and> snd (solve model) (Quad cat) = 0"
    if "cat \<in> set categories" for cat
    using that by (rule z(2))
  then have "map (\<lambda>cat. snd (solve model) (Quad cat) * the (w cat)) categories =
      map (\<lambda>cat. 0) categories"
    by auto
  then have l: "sum_list (map (\<lambda>cat. snd (solve model) (Quad cat) * the (w cat)) categories) = 0"
    by (simp only: sum_list_0)
  from m have "snd (optimize_budget_with_weighted_quadratic_loss_custom_units solve cur scale)
      = Inr (extract_result w (solve model))"
    by (simp add: optimize_after_the_model assms(1))
  then have "snd (optimize_budget_with_weighted_quadratic_loss_custom_units solve cur scale) =
      Inr (Some (map_of (map (\<lambda>cat. (cat, snd (solve model) (Alloc cat))) categories), 0))"
    using st l by (cases "solve model") (auto simp: extract_result_def)
  moreover have "map_of (map (\<lambda>cat. (cat, snd (solve model) (Alloc cat))) categories) cat =
      Some 0" if "cat \<in> set categories" for cat
    using that v by (simp add: result_lookup)
  ultimately show ?thesis by blast
qed

theorem zero_budget_scenario_witness:
  "get empty_budget ''monthly_take_home'' 0 = 0 \<and>
   list_all (\<lambda>cat. get empty_budget cat 0 = 0) supplied_categories \<and>
   \<bar>1000 :: int\<bar> < 2 ^ 53 \<and>
   solver_sound (checking_solver zero_solution) \<and>
   (\<exists>w model. the_model (store_totals 0 empty_budget) 0 1000 = Inr (w, model) \<and>
      solver_complete (checking_solver zero_solution) model) \<and>
   (\<exists>result.
      snd (optimize_budget_with_weighted_quadratic_loss_custom_units
             (checking_solver zero_solution) empty_budget 1000) = Inr (Some (result, 0)) \<and>
      (\<forall>cat\<in>set categories. result cat = Some 0))"
proof -
  have 1: "get empty_budget ''monthly_take_home'' 0 = 0"
    by (simp add: empty_budget_def get_def)
  have 2: "\<forall>cat\<in>set supplied_categories. get empty_budget cat 0 = 0"
    by (simp add: empty_budget_def get_def supplied_categories_def needs_categories_def)
  have 3: "\<bar>1000 :: int\<bar> < 2 ^ 53" by simp
  have c: "solver_complete (checking_solver zero_solution) model"
    if "the_model (store_totals 0 empty_budget) 0 1000 = Inr (w, model)" for w model
    using zero_budget_model(1) [OF 1 2 that]
    by (simp add: solver_complete_def checking_solver_def)
  obtain w model where
    m: "the_model (store_totals 0 empty_budget) 0 1000 = Inr (w, model)"
    using 1 2 3 by (rule zero_budget_reaches_solver)
  have "\<exists>result.
      snd (optimize_budget_with_weighted_quadratic_loss_custom_units
             (checking_solver zero_solution) empty_budget 1000) = Inr (Some (result, 0)) \<and>
      (\<forall>cat\<in>set categories. result cat = Some 0)"
    using 1 2 3 checking_solver_sound c by (rule zero_budget_scenario)
  with 1 2 3 m c [OF m] checking_solver_sound [of zero_solution]
  show ?thesis by (simp add: list_all_iff)
qed

section \<open>The divisor of the weights\<close>

text \<open>
  C8. The divisor \<open>current_val + 1\<close> is to be non-zero for non-negative supplied
  values and income. It is for the supplied categories, but the derived \<open>total_wants\<close>
  is \<open>- 1\<close> as soon as needs and savings exceed the income by one: with an income of
  1000, housing of 600 and savings of 401 all supplied values are non-negative, the
  divisor of \<open>total_wants\<close> is 0, and the weight computation and the call raise
  \<open>ZeroDivisionError\<close>.
\<close>

theorem overspent_by_one_raises:
  "list_all (\<lambda>cat. 0 \<le> get overspent_input cat 0) (''monthly_take_home'' # supplied_categories) \<and>
   get (store_totals (get overspent_input ''monthly_take_home'' 0) overspent_input)
     ''total_wants'' 0 + 1 = 0 \<and>
   weights (store_totals (get overspent_input ''monthly_take_home'' 0) overspent_input) 1000
     = Inl ZeroDivisionError \<and>
   snd (optimize_budget_with_weighted_quadratic_loss_custom_units solve overspent_input 1000)
     = Inl ZeroDivisionError"
proof -
  have i: "get overspent_input ''monthly_take_home'' 0 = 1000"
    by (simp add: overspent_input_def get_def)
  have "case weights (store_totals 1000 overspent_input) 1000 of
          Inl err \<Rightarrow> err = ZeroDivisionError | Inr w \<Rightarrow> False"
    by code_simp
  then have 1: "weights (store_totals 1000 overspent_input) 1000 = Inl ZeroDivisionError"
    by (simp split: sum.splits)
  then have 2: "snd (optimize_budget_with_weighted_quadratic_loss_custom_units solve
      overspent_input 1000) = Inl ZeroDivisionError"
    by (simp add: optimize_raises i)
  have 3: "list_all (\<lambda>cat. 0 \<le> get overspent_input cat 0)
      (''monthly_take_home'' # supplied_categories)"
    by (simp add: supplied_categories_def needs_categories_def overspent_input_def get_def)
  have "current_total_wants 1000 overspent_input = - 1"
    by (simp add: current_total_wants_def current_total_needs_eq overspent_input_def get_def)
  then have 4: "get (store_totals 1000 overspent_input) ''total_wants'' 0 + 1 = 0"
    by (simp add: get_store_totals)
  from 1 2 3 4 show ?thesis by (simp add: i)
qed

text \<open>
  Everywhere else the divisor is as it is to be. For non-negative supplied category
  values and income, the divisor \<open>current + 1\<close> is positive for the eight categories
  other than \<open>total_wants\<close>; when moreover the derived \<open>total_wants\<close> is not
  \<open>- 1\<close>, the divisor is non-zero for all nine categories and the call raises no
  \<open>ZeroDivisionError\<close>.
\<close>

theorem weight_divisor_nonzero:
  assumes "\<forall>cat\<in>set supplied_categories. 0 \<le> get cur cat 0"
    and "0 \<le> get cur ''monthly_take_home'' 0"
    and "current_total_wants (get cur ''monthly_take_home'' 0) cur \<noteq> - 1"
  shows "(\<forall>cat\<in>set categories.
            get (store_totals (get cur ''monthly_take_home'' 0) cur) cat 0 + 1 \<noteq> 0) \<and>
         (\<forall>cat\<in>set categories. cat \<noteq> ''total_wants'' \<longrightarrow>
            0 < get (store_totals (get cur ''monthly_take_home'' 0) cur) cat 0 + 1) \<and>
         snd (optimize_budget_with_weighted_quadratic_loss_custom_units solve cur scale)
           \<noteq> Inl ZeroDivisionError"
proof -
  from assms(1) have n: "0 \<le> get cur ''transport_expenditure'' 0"
    "0 \<le> get cur ''food_expenditure'' 0" "0 \<le> get cur ''housing_expenditure'' 0"
    "0 \<le> get cur ''insurance_expenditure'' 0" "0 \<le> get cur ''other_needs_expenditure'' 0"
    "0 \<le> get cur ''investment_expenditure'' 0" "0 \<le> get cur ''monthly_savings'' 0"
    by (simp_all add: supplied_categories_def needs_categories_def)
  then have tn: "0 \<le> current_total_needs cur"
    by (simp add: current_total_needs_eq)
  have pos: "0 < get (store_totals (get cur ''monthly_take_home'' 0) cur) cat 0 + 1"
    if "cat \<in> set categories" "cat \<noteq> ''total_wants''" for cat
    using that n tn by (auto simp: categories_def get_store_totals)
  have nz: "get (store_totals (get cur ''monthly_take_home'' 0) cur) cat 0 + 1 \<noteq> 0"
    if "cat \<in> set categories" for cat
  proof (cases "cat = ''total_wants''")
    case True
    with assms(3) show ?thesis by (simp add: get_store_totals)
  next
    case False
    with pos [OF that] show ?thesis by simp
  qed
  have "snd (optimize_budget_with_weighted_quadratic_loss_custom_units solve cur scale)
           \<noteq> Inl ZeroDivisionError"
  proof
    assume "snd (optimize_budget_with_weighted_quadratic_loss_custom_units solve cur scale)
           = Inl ZeroDivisionError"
    then obtain cat where "cat \<in> set categories"
      "get (store_totals (get cur ''monthly_take_home'' 0) cur) cat 0 = - 1"
      using optimize_ZeroDivisionError by blast
    with nz [of cat] show False by simp
  qed
  with pos nz show ?thesis by blast
qed

theorem weight_divisor_nonzero_witness:
  "list_all (\<lambda>cat. 0 \<le> get reference_input cat 0) supplied_categories \<and>
   0 \<le> get reference_input ''monthly_take_home'' 0 \<and>
   current_total_wants (get reference_input ''monthly_take_home'' 0) reference_input = 1300 \<and>
   get (store_totals (get reference_input ''monthly_take_home'' 0) reference_input)
     ''total_wants'' 0 + 1 = 1301 \<and>
   snd (optimize_budget_with_weighted_quadratic_loss_custom_units
          (checking_solver reference_solution) reference_input 1000)
     \<noteq> Inl ZeroDivisionError"
proof -
  have 1: "\<forall>cat\<in>set supplied_categories. 0 \<le> get reference_input cat 0"
    by (simp add: supplied_categories_def needs_categories_def reference_input_def get_def)
  have 2: "0 \<le> get reference_input ''monthly_take_home'' 0"
    by (simp add: reference_income)
  have 3: "current_total_wants (get reference_input ''monthly_take_home'' 0) reference_input = 1300"
    by (simp add: current_total_wants_def current_total_needs_eq reference_input_def get_def)
  from 3 have 4: "current_total_wants (get reference_input ''monthly_take_home'' 0) reference_input
      \<noteq> - 1"
    by simp
  from weight_divisor_nonzero [OF 1 2 4, of "checking_solver reference_solution" 1000] 1 2 3
  show ?thesis by (simp add: get_store_totals list_all_iff)
qed

section \<open>The caller's dict\<close>

text \<open>
  The call writes the two derived totals into the dict it is given: after the call on the
  notebook's dict, which has no key \<open>total_needs\<close>, that key holds 2000.
\<close>

theorem caller_dict_changed_counterexample:
  "reference_input ''total_needs'' = None \<and>
   fst (optimize_budget_with_weighted_quadratic_loss_custom_units
          (checking_solver reference_solution) reference_input 1000) ''total_needs'' = Some 2000"
  by (simp add: optimize_budget_with_weighted_quadratic_loss_custom_units_def Let_def store_totals_def current_total_needs_eq
      reference_input_def get_def)

text \<open>
  C9, as amended. After a call the caller's dict is the dict before the call with the keys
  \<open>total_needs\<close> and \<open>total_wants\<close> set to the derived totals, and nothing else
  changed; a second call on the dict the first one left behind does and returns the same
  as the first, so nothing but the arguments is carried from call to call.
\<close>

theorem caller_dict_after_call:
  "fst (optimize_budget_with_weighted_quadratic_loss_custom_units solve cur scale) =
     cur(''total_needs'' \<mapsto> current_total_needs cur,
         ''total_wants'' \<mapsto> current_total_wants (get cur ''monthly_take_home'' 0) cur) \<and>
   optimize_budget_with_weighted_quadratic_loss_custom_units solve
     (fst (optimize_budget_with_weighted_quadratic_loss_custom_units solve cur scale)) scale =
     optimize_budget_with_weighted_quadratic_loss_custom_units solve cur scale"
proof -
  have 1: "fst (optimize_budget_with_weighted_quadratic_loss_custom_units solve cur scale) =
      store_totals (get cur ''monthly_take_home'' 0) cur"
    by (simp add: optimize_budget_with_weighted_quadratic_loss_custom_units_def Let_def)
  have 2: "get (store_totals (get cur ''monthly_take_home'' 0) cur) ''monthly_take_home'' 0
      = get cur ''monthly_take_home'' 0"
    by (simp add: get_store_totals)
  have "optimize_budget_with_weighted_quadratic_loss_custom_units solve
     (store_totals (get cur ''monthly_take_home'' 0) cur) scale =
     optimize_budget_with_weighted_quadratic_loss_custom_units solve cur scale"
    unfolding optimize_budget_with_weighted_quadratic_loss_custom_units_def Let_def
    using store_totals_idem [of "get cur ''monthly_take_home'' 0" cur]
    by (simp add: 2)
  with 1 show ?thesis by (simp add: store_totals_def)
qed

theorem caller_dict_after_call_witness:
  "fst (optimize_budget_with_weighted_quadratic_loss_custom_units
          (checking_solver reference_solution) reference_input 1000) =
     reference_input(''total_needs'' \<mapsto> 2000, ''total_wants'' \<mapsto> 1300) \<and>
   optimize_budget_with_weighted_quadratic_loss_custom_units (checking_solver reference_solution)
     (fst (optimize_budget_with_weighted_quadratic_loss_custom_units
            (checking_solver reference_solution) reference_input 1000)) 1000 =
     optimize_budget_with_weighted_quadratic_loss_custom_units
       (checking_solver reference_solution) reference_input 1000"
proof -
  have n: "current_total_needs reference_input = 2000"
    by (simp add: current_total_needs_eq reference_input_def get_def)
  have w: "current_total_wants (get reference_input ''monthly_take_home'' 0) reference_input
      = 1300"
    by (simp add: current_total_wants_def current_total_needs_eq reference_input_def get_def)
  note t = caller_dict_after_call [of "checking_solver reference_solution" reference_input 1000]
  from t [THEN conjunct1] have
    "fst (optimize_budget_with_weighted_quadratic_loss_custom_units
          (checking_solver reference_solution) reference_input 1000) =
     reference_input(''total_needs'' \<mapsto> 2000, ''total_wants'' \<mapsto> 1300)"
    unfolding n w .
  with t [THEN conjunct2] show ?thesis by (rule_tac conjI)
qed

section \<open>Current values beyond twice the income\<close>

text \<open>
  C10. A supplied current value above twice the income is to end in the no-solution
  signal. With an income of 100, an investment of 201 and savings of 101 the investment
  exceeds twice the income, but the derived \<open>total_wants\<close> is \<open>- 1\<close> and the call
  raises \<open>ZeroDivisionError\<close> in the weight loop, before the model is built.
\<close>

theorem oversized_current_raises:
  "0 \<le> get overinvested_input ''monthly_take_home'' 0 \<and>
   2 * get overinvested_input ''monthly_take_home'' 0
     < get overinvested_input ''investment_expenditure'' 0 \<and>
   snd (optimize_budget_with_weighted_quadratic_loss_custom_units solve overinvested_input 1000)
     = Inl ZeroDivisionError"
proof -
  have i: "get overinvested_input ''monthly_take_home'' 0 = 100"
    "get overinvested_input ''investment_expenditure'' 0 = 201"
    by (simp_all add: overinvested_input_def get_def)
  have "case weights (store_totals 100 overinvested_input) 1000 of
          Inl err \<Rightarrow> err = ZeroDivisionError | Inr w \<Rightarrow> False"
    by code_simp
  then have "weights (store_totals 100 overinvested_input) 1000 = Inl ZeroDivisionError"
    by (simp split: sum.splits)
  then have "snd (optimize_budget_with_weighted_quadratic_loss_custom_units solve
      overinvested_input 1000) = Inl ZeroDivisionError"
    by (simp add: optimize_raises i)
  then show ?thesis
    by (simp add: i)
qed

text \<open>
  The argument from the bounds holds as soon as the model is built. When a supplied
  category's current value exceeds twice the income and the call gets as far as the
  solver, the model has no solution (the allocation is at most the income and the
  deviation at least its negation), and with a sound solver the function returns the
  no-solution signal.
\<close>

theorem oversized_current_gives_no_solution:
  assumes "solver_sound solve"
    and "cat \<in> set supplied_categories"
    and "2 * get cur ''monthly_take_home'' 0 < get cur cat 0"
    and "the_model (store_totals (get cur ''monthly_take_home'' 0) cur)
           (get cur ''monthly_take_home'' 0) scale = Inr (w, model)"
  shows "(\<forall>a. \<not> feasible model a) \<and>
         snd (optimize_budget_with_weighted_quadratic_loss_custom_units solve cur scale)
           = Inr None"
proof -
  from assms(2) have c: "cat \<in> set categories" "cat \<noteq> ''total_needs''" "cat \<noteq> ''total_wants''"
    by (auto simp: supplied_categories_def needs_categories_def categories_def)
  then have g: "get (store_totals (get cur ''monthly_take_home'' 0) cur) cat 0 = get cur cat 0"
    by (simp add: get_store_totals)
  from assms(4) obtain b1 b2 b3 where
    "model = assembled_model (store_totals (get cur ''monthly_take_home'' 0) cur) w
       (get cur ''monthly_take_home'' 0) b1 b2 b3"
    by (rule the_model_Inr)
  with c(1) assms(3) g have i: "\<forall>a. \<not> feasible model a"
    by (simp add: oversized_current_infeasible)
  with assms(1) have "fst (solve model) \<notin> {OPTIMAL, FEASIBLE}"
    by (auto simp: solver_sound_def)
  then have "snd (optimize_budget_with_weighted_quadratic_loss_custom_units solve cur scale)
           = Inr None"
    by (cases "solve model") (simp add: optimize_after_the_model [OF assms(4)] extract_result_def)
  with i show ?thesis by simp
qed

theorem oversized_current_gives_no_solution_witness:
  "\<exists>w model.
     solver_sound (checking_solver reference_solution) \<and>
     ''food_expenditure'' \<in> set supplied_categories \<and>
     2 * get oversized_input ''monthly_take_home'' 0 < get oversized_input ''food_expenditure'' 0 \<and>
     the_model (store_totals (get oversized_input ''monthly_take_home'' 0) oversized_input)
       (get oversized_input ''monthly_take_home'' 0) 1000 = Inr (w, model) \<and>
     (\<forall>a. \<not> feasible model a) \<and>
     snd (optimize_budget_with_weighted_quadratic_loss_custom_units
            (checking_solver reference_solution) oversized_input 1000) = Inr None"
proof -
  have i: "get oversized_input ''monthly_take_home'' 0 = 4000"
    by (simp add: oversized_input_def reference_input_def get_def)
  have 1: "''food_expenditure'' \<in> set supplied_categories"
    by (simp add: supplied_categories_def needs_categories_def)
  have 2: "2 * get oversized_input ''monthly_take_home'' 0 < get oversized_input ''food_expenditure'' 0"
    by (simp add: oversized_input_def reference_input_def get_def)
  from oversized_the_model obtain w model where
    3: "the_model (store_totals (get oversized_input ''monthly_take_home'' 0) oversized_input)
       (get oversized_input ''monthly_take_home'' 0) 1000 = Inr (w, model)"
    by (auto simp: i split: sum.splits)
  from oversized_current_gives_no_solution [OF checking_solver_sound 1 2 3] 1 2 3
    checking_solver_sound
  show ?thesis by blast
qed

end
